theory Spec2Isabelle
  imports Main
begin

section \<open>C integers of the AVR target\<close>

text \<open>
  The firmware is built for an ATtiny85 with avr-gcc: \<open>int\<close> has 16 bits and \<open>long\<close> has 32.
  Every C value is an \<open>int\<close> of HOL here and every store into a variable of a fixed width
  goes through the conversion of that width, so that wrap-around is part of the model.
\<close>

definition uint8_t :: "int \<Rightarrow> int" where
  "uint8_t x = x mod 256"

definition int8_t :: "int \<Rightarrow> int" where
  "int8_t x = (x + 128) mod 256 - 128"

definition uint16_t :: "int \<Rightarrow> int" where
  "uint16_t x = x mod 65536"

definition int16_t :: "int \<Rightarrow> int" where
  "int16_t x = (x + 32768) mod 65536 - 32768"

definition uint32_t :: "int \<Rightarrow> int" where
  "uint32_t x = x mod 4294967296"

definition int32_t :: "int \<Rightarrow> int" where
  "int32_t x = (x + 2147483648) mod 4294967296 - 2147483648"

text \<open>The division of C truncates towards zero; \<open>div\<close> of HOL rounds down.\<close>

definition c_div :: "int \<Rightarrow> int \<Rightarrow> int" where
  "c_div a b = (if (a < 0) = (b < 0) then \<bar>a\<bar> div \<bar>b\<bar> else - (\<bar>a\<bar> div \<bar>b\<bar>))"

section \<open>servoscale.c: constants and globals\<close>

definition F_CPU :: int where
  "F_CPU = 8000000"

definition MARGIN :: int where
  "MARGIN = 40"

definition FWDFULL :: int where
  "FWDFULL = 400"

definition MAXBURST :: int where
  "MAXBURST = 15"

datatype state = CTR | INI | REV | FWD | STP | BRK

text \<open>
  The globals of the program: \<open>duration\<close> and \<open>led\<close> are \<open>uint8_t\<close>, \<open>nobst\<close> is
  \<open>int8_t\<close> and \<open>offset\<close> is \<open>int16_t\<close> in servoscale.c; the Arduino sketch declares
  \<open>duration\<close>, \<open>nobst\<close> and \<open>offset\<close> as \<open>int\<close> and has no \<open>led\<close>.
\<close>

record globals =
  state :: state
  duration :: int
  led :: int
  nobst :: int
  offset :: int

definition boot :: globals where
  "boot = \<lparr>state = CTR, duration = 0, led = 1, nobst = 0, offset = 0\<rparr>"

section \<open>Pulse capture and emission\<close>

text \<open>
  \<open>pulse_width\<close>: the third loop adds 5 to the 16-bit \<open>width\<close> each time it finds the pin
  high; \<open>n\<close> is the number of times it did. The waiting loops before it compute nothing.
\<close>

fun count_cycles :: "nat \<Rightarrow> int" where
  "count_cycles 0 = 0"
| "count_cycles (Suc n) = uint16_t (count_cycles n + 5)"

definition pulse_width :: "nat \<Rightarrow> int" where
  "pulse_width n =
     (let width = count_cycles n
      in if F_CPU mod 1000000 = 0
         then uint16_t (width div (F_CPU div 1000000))
         else uint16_t (uint32_t (uint32_t width * 10) div (F_CPU div 100000)))"

text \<open>
  \<open>send_pulse\<close>: the product is computed in \<open>long\<close> (the constant does not fit an
  \<open>int\<close>) and stored back into the 16-bit parameter. The loop \<open>while (--width)\<close>
  decrements before it tests; \<open>spin\<close> lists one \<open>Nop\<close> for each run of its body.
\<close>

datatype pb3 = High | Nop | Low

function spin :: "int \<Rightarrow> pb3 list" where
  "spin width =
     (let width' = uint16_t (width - 1)
      in if width' \<noteq> 0 then Nop # spin width' else [])"
  by pat_completeness auto
termination
  by (relation "measure (\<lambda>width. nat (uint16_t (width - 1)))")
     (auto simp: uint16_t_def)

declare spin.simps [simp del]

definition loop_count :: "int \<Rightarrow> int" where
  "loop_count width =
     uint16_t (int32_t (int32_t (uint16_t width * (F_CPU div 1000000)) div 4 + 1))"

definition send_pulse :: "int \<Rightarrow> pb3 list" where
  "send_pulse width = High # spin (loop_count width) @ [Low]"

section \<open>servoscale.c: the body of the loop of \<open>main\<close>\<close>

text \<open>
  The body is modelled in the order of the source. \<open>centre\<close> is the statements from the
  call of \<open>pulse_width\<close> to the first switch: the returned \<open>uint16_t\<close> is stored into the
  \<open>int16_t len\<close>, the centre is subtracted and, outside CTR, the offset is added.
  The writes to the port registers (lights) read no variable but \<open>led\<close> and are left out.
\<close>

definition centre :: "globals \<Rightarrow> int \<Rightarrow> int" where
  "centre g width =
     (let len = int16_t width;
          len = int16_t (len - 1500)
      in if state g \<noteq> CTR then int16_t (len + offset g) else len)"

text \<open>The first switch, on the state before the iteration.\<close>

definition cumulate :: "globals \<Rightarrow> int \<Rightarrow> globals" where
  "cumulate g len =
     (if duration g \<ge> 10
      then (if len < 0 then g\<lparr>offset := int16_t (offset g - len)\<rparr>
            else g\<lparr>offset := int16_t (offset g + len)\<rparr>)
      else g)"

definition finish :: "globals \<Rightarrow> globals" where
  "finish g =
     (if duration g \<ge> 20
      then g\<lparr>offset := int16_t (c_div (offset g) 10), state := INI, duration := 0\<rparr>
      else g)"

definition transitions :: "globals \<Rightarrow> int \<Rightarrow> globals" where
  "transitions g len =
     (case state g of
        CTR \<Rightarrow>
          if len < - 500 \<or> len > 500 then g\<lparr>duration := uint8_t (duration g - 1)\<rparr>
          else finish (cumulate g len)
      | INI \<Rightarrow>
          if len \<ge> MARGIN then g\<lparr>state := FWD, duration := 0\<rparr>
          else if len \<le> - MARGIN then g\<lparr>state := REV, duration := 0\<rparr>
          else g
      | FWD \<Rightarrow>
          if len \<le> - MARGIN then g\<lparr>state := BRK, duration := 0\<rparr>
          else if len > - MARGIN \<and> len < MARGIN
          then (if duration g \<ge> 4 then g\<lparr>state := STP, duration := 0\<rparr> else g)
          else g
      | STP \<Rightarrow>
          if len \<ge> MARGIN then g\<lparr>state := FWD, duration := 0\<rparr>
          else if len \<le> - MARGIN then g\<lparr>state := BRK, duration := 0\<rparr>
          else g
      | BRK \<Rightarrow>
          if len \<ge> MARGIN then g\<lparr>state := FWD, duration := 0\<rparr>
          else if len > - MARGIN \<and> len < MARGIN
          then (if duration g \<ge> 4 then g\<lparr>state := INI, duration := 0\<rparr> else g)
          else g
      | REV \<Rightarrow>
          if len \<ge> MARGIN then g\<lparr>state := FWD, duration := 0\<rparr>
          else if len > - MARGIN \<and> len < MARGIN
          then (if duration g \<ge> 4 then g\<lparr>state := INI, duration := 0\<rparr> else g)
          else g)"

text \<open>
  The second switch, on the state after the first: it returns the globals and the scaled
  \<open>len\<close>. \<open>len * 2\<close> is an \<open>int\<close> of 16 bits.
\<close>

definition unburst :: "globals \<Rightarrow> globals" where
  "unburst g =
     (let n = int8_t (nobst g - 1)
      in if n < 0 then g\<lparr>nobst := 0\<rparr> else g\<lparr>nobst := n\<rparr>)"

definition scale :: "globals \<Rightarrow> int \<Rightarrow> globals \<times> int" where
  "scale g len =
     (case state g of
        FWD \<Rightarrow>
          (let n = int8_t (nobst g + 1);
               g = (if n \<ge> MAXBURST then g\<lparr>nobst := int8_t (2 * MAXBURST)\<rparr>
                    else g\<lparr>nobst := n\<rparr>)
           in if len < FWDFULL \<or> nobst g \<ge> MAXBURST
              then (g\<lparr>led := 1\<rparr>, int16_t (c_div (int16_t (len * 2)) 5))
              else (g, len))
      | REV \<Rightarrow> (unburst (g\<lparr>led := 1\<rparr>), int16_t (c_div (int16_t (len * 2)) 3))
      | CTR \<Rightarrow> (g\<lparr>led := 1\<rparr>, len)
      | _ \<Rightarrow> (unburst (g\<lparr>led := 0\<rparr>), len))"

text \<open>
  One iteration, given the value that \<open>pulse_width\<close> returned: the new globals and the
  argument of \<open>send_pulse\<close>, a \<open>uint16_t\<close>.
\<close>

definition tick :: "globals \<Rightarrow> globals" where
  "tick g = (if duration g < 255 then g\<lparr>duration := uint8_t (duration g + 1)\<rparr> else g)"

definition main_iter :: "globals \<Rightarrow> int \<Rightarrow> globals \<times> int" where
  "main_iter g width =
     (let g = g\<lparr>led := 0\<rparr>;
          len = centre g width;
          g = transitions g len;
          (g, len) = scale g len;
          len = int16_t (len + 1500)
      in (tick g, uint16_t len))"

fun main_run :: "globals \<Rightarrow> int list \<Rightarrow> globals" where
  "main_run g [] = g"
| "main_run g (width # ws) = main_run (fst (main_iter g width)) ws"

fun main_sent :: "globals \<Rightarrow> int list \<Rightarrow> int list" where
  "main_sent g [] = []"
| "main_sent g (width # ws) = snd (main_iter g width) # main_sent (fst (main_iter g width)) ws"

text \<open>An execution from power-up: the n-th pulse was high for \<open>ns ! n\<close> polls.\<close>

definition main_exec :: "nat list \<Rightarrow> globals" where
  "main_exec ns = main_run boot (map pulse_width ns)"

section \<open>The Arduino sketch: \<open>loop\<close>\<close>

text \<open>
  The sketch has its own constants and declares every variable as \<open>int\<close>, 16 bits on
  the AVR boards it is written for. Its switch on the state is the one of servoscale.c
  but for the window of CTR; \<open>cumulate\<close> and \<open>finish\<close> are the same statements.
\<close>

definition sketch_MARGIN :: int where
  "sketch_MARGIN = 40"

definition sketch_FWDFULL :: int where
  "sketch_FWDFULL = 300"

definition sketch_MAXBURST :: int where
  "sketch_MAXBURST = 20"

text \<open>\<open>pulseIn\<close> of the Arduino core returns an \<open>unsigned long\<close>, stored into \<open>int len\<close>.\<close>

definition sketch_centre :: "globals \<Rightarrow> int \<Rightarrow> int" where
  "sketch_centre g pulse =
     (let len = int16_t pulse;
          len = int16_t (len - 1500)
      in if state g \<noteq> CTR then int16_t (len + offset g) else len)"

definition sketch_transitions :: "globals \<Rightarrow> int \<Rightarrow> globals" where
  "sketch_transitions g len =
     (case state g of
        CTR \<Rightarrow>
          if len < - 1500 \<or> len > 1500 then g\<lparr>duration := int16_t (duration g - 1)\<rparr>
          else finish (cumulate g len)
      | INI \<Rightarrow>
          if len \<ge> sketch_MARGIN then g\<lparr>state := FWD, duration := 0\<rparr>
          else if len \<le> - sketch_MARGIN then g\<lparr>state := REV, duration := 0\<rparr>
          else g
      | FWD \<Rightarrow>
          if len \<le> - sketch_MARGIN then g\<lparr>state := BRK, duration := 0\<rparr>
          else if len > - sketch_MARGIN \<and> len < sketch_MARGIN
          then (if duration g \<ge> 4 then g\<lparr>state := STP, duration := 0\<rparr> else g)
          else g
      | STP \<Rightarrow>
          if len \<ge> sketch_MARGIN then g\<lparr>state := FWD, duration := 0\<rparr>
          else if len \<le> - sketch_MARGIN then g\<lparr>state := BRK, duration := 0\<rparr>
          else g
      | BRK \<Rightarrow>
          if len \<ge> sketch_MARGIN then g\<lparr>state := FWD, duration := 0\<rparr>
          else if len > - sketch_MARGIN \<and> len < sketch_MARGIN
          then (if duration g \<ge> 4 then g\<lparr>state := INI, duration := 0\<rparr> else g)
          else g
      | REV \<Rightarrow>
          if len \<ge> sketch_MARGIN then g\<lparr>state := FWD, duration := 0\<rparr>
          else if len > - sketch_MARGIN \<and> len < sketch_MARGIN
          then (if duration g \<ge> 4 then g\<lparr>state := INI, duration := 0\<rparr> else g)
          else g)"

definition sketch_unburst :: "globals \<Rightarrow> globals" where
  "sketch_unburst g =
     (let n = int16_t (nobst g - 1)
      in if n < 0 then g\<lparr>nobst := 0\<rparr> else g\<lparr>nobst := n\<rparr>)"

definition sketch_scale :: "globals \<Rightarrow> int \<Rightarrow> globals \<times> int" where
  "sketch_scale g len =
     (case state g of
        FWD \<Rightarrow>
          (let n = int16_t (nobst g + 1);
               g = (if n \<ge> sketch_MAXBURST then g\<lparr>nobst := int16_t (2 * sketch_MAXBURST)\<rparr>
                    else g\<lparr>nobst := n\<rparr>)
           in if len < sketch_FWDFULL \<or> nobst g \<ge> sketch_MAXBURST
              then (g, int16_t (c_div (int16_t (len * 2)) 5))
              else (g, len))
      | REV \<Rightarrow> (sketch_unburst g, int16_t (c_div (int16_t (len * 2)) 4))
      | _ \<Rightarrow> (sketch_unburst g, len))"

definition sketch_tick :: "globals \<Rightarrow> globals" where
  "sketch_tick g =
     (let g = g\<lparr>duration := int16_t (duration g + 1)\<rparr>
      in if duration g > 1000 then g\<lparr>duration := 1000\<rparr> else g)"

text \<open>
  One call of \<open>loop\<close>, given the value that \<open>pulseIn\<close> returned: the new globals and the
  argument of \<open>delayMicroseconds\<close>, an \<open>unsigned int\<close>.
\<close>

definition loop :: "globals \<Rightarrow> int \<Rightarrow> globals \<times> int" where
  "loop g pulse =
     (let len = sketch_centre g pulse;
          g = sketch_transitions g len;
          (g, len) = sketch_scale g len;
          len = int16_t (len + 1500)
      in (sketch_tick g, uint16_t len))"

fun loop_run :: "globals \<Rightarrow> int list \<Rightarrow> globals" where
  "loop_run g [] = g"
| "loop_run g (pulse # ps) = loop_run (fst (loop g pulse)) ps"

section \<open>Invariants of the two loops\<close>

text \<open>
  \<open>main_inv\<close> holds between two iterations of \<open>main\<close> and \<open>main_mid\<close> between its
  first switch and the final update of \<open>duration\<close>; \<open>sketch_inv\<close> and \<open>sketch_mid\<close>
  are their counterparts for the sketch. \<open>all_fwd g ws\<close> says that each iteration of a run
  ends in FWD.
\<close>

definition main_inv :: "globals \<Rightarrow> bool" where
  "main_inv g =
     (0 \<le> duration g \<and> duration g \<le> 255 \<and>
      (if state g = CTR
       then (if duration g \<le> 10 then offset g = 0
             else if duration g \<le> 20 then 0 \<le> offset g \<and> offset g \<le> 500 * (duration g - 10)
             else duration g = 255 \<and> offset g = 0)
       else 0 \<le> offset g \<and> offset g \<le> 550))"

definition main_mid :: "globals \<Rightarrow> bool" where
  "main_mid g =
     (0 \<le> duration g \<and> duration g \<le> 255 \<and>
      (if state g = CTR
       then (if duration g < 10 then offset g = 0
             else if duration g < 20 then 0 \<le> offset g \<and> offset g \<le> 500 * (duration g - 9)
             else 254 \<le> duration g \<and> offset g = 0)
       else 0 \<le> offset g \<and> offset g \<le> 550))"

definition sketch_inv :: "globals \<Rightarrow> bool" where
  "sketch_inv g =
     (0 \<le> duration g \<and> duration g \<le> 1000 \<and>
      (if state g = CTR
       then (if duration g \<le> 10 then offset g = 0
             else duration g \<le> 20 \<and> 0 \<le> offset g \<and> offset g \<le> 1500 * (duration g - 10))
       else 0 \<le> offset g \<and> offset g \<le> 1650))"

definition sketch_mid :: "globals \<Rightarrow> bool" where
  "sketch_mid g =
     (- 1 \<le> duration g \<and> duration g \<le> 1000 \<and>
      (if state g = CTR
       then (if duration g < 10 then offset g = 0
             else duration g < 20 \<and> 0 \<le> offset g \<and> offset g \<le> 1500 * (duration g - 9))
       else 0 \<le> duration g \<and> 0 \<le> offset g \<and> offset g \<le> 1650))"

fun all_fwd :: "globals \<Rightarrow> int list \<Rightarrow> bool" where
  "all_fwd g [] = True"
| "all_fwd g (width # ws) =
     (state (fst (main_iter g width)) = FWD \<and> all_fwd (fst (main_iter g width)) ws)"

section \<open>Facts about the C integers\<close>

lemma int16_t_id: "- 32768 \<le> x \<Longrightarrow> x \<le> 32767 \<Longrightarrow> int16_t x = x"
  by (simp add: int16_t_def)

lemma int32_t_id: "- 2147483648 \<le> x \<Longrightarrow> x \<le> 2147483647 \<Longrightarrow> int32_t x = x"
  by (simp add: int32_t_def)

lemma int8_t_id: "- 128 \<le> x \<Longrightarrow> x \<le> 127 \<Longrightarrow> int8_t x = x"
  by (simp add: int8_t_def)

lemma uint8_t_id: "0 \<le> x \<Longrightarrow> x \<le> 255 \<Longrightarrow> uint8_t x = x"
  by (simp add: uint8_t_def)

lemma uint16_t_id: "0 \<le> x \<Longrightarrow> x \<le> 65535 \<Longrightarrow> uint16_t x = x"
  by (simp add: uint16_t_def)

lemma int16_t_range: "- 32768 \<le> int16_t x \<and> int16_t x \<le> 32767"
proof -
  have "0 \<le> (x + 32768) mod 65536" "(x + 32768) mod 65536 < 65536" by simp_all
  then show ?thesis unfolding int16_t_def by linarith
qed

lemma uint8_t_dec: "0 \<le> d \<Longrightarrow> d \<le> 255 \<Longrightarrow> uint8_t (d - 1) = (if d = 0 then 255 else d - 1)"
  by (simp add: uint8_t_def)

lemma c_div_nonneg: "0 \<le> a \<Longrightarrow> 0 < b \<Longrightarrow> c_div a b = a div b"
  by (simp add: c_div_def)

section \<open>Pulse capture\<close>

lemma count_cycles_eq: "count_cycles n = (5 * int n) mod 65536"
  by (induction n) (simp_all add: uint16_t_def mod_simps algebra_simps)

lemma pulse_width_eq: "pulse_width n = (5 * int n) mod 65536 div 8"
proof -
  have "(5 * int n) mod 65536 div 8 < 65536" "0 \<le> (5 * int n) mod 65536 div 8"
    by (simp_all add: div_int_pos_iff)
  then show ?thesis
    by (simp add: pulse_width_def count_cycles_eq F_CPU_def uint16_t_def)
qed

lemma pulse_width_range: "0 \<le> pulse_width n \<and> pulse_width n \<le> 8191"
proof -
  have "0 \<le> (5 * int n) mod 65536" "(5 * int n) mod 65536 < 65536" by simp_all
  then show ?thesis unfolding pulse_width_eq by linarith
qed

section \<open>Pulse emission\<close>

lemma spin_eq: "0 < w \<Longrightarrow> w < 65536 \<Longrightarrow> spin w = replicate (nat (w - 1)) Nop"
proof (induction "nat (w - 1)" arbitrary: w)
  case 0
  then have "w = 1" by simp
  then show ?case by (subst spin.simps) (simp add: uint16_t_def)
next
  case (Suc n)
  then have w: "1 < w" and n: "n = nat (w - 1 - 1)" by simp_all
  have "spin (w - 1) = replicate (nat (w - 1 - 1)) Nop"
    using Suc.hyps(1) [of "w - 1"] n w Suc.prems by simp
  moreover have "uint16_t (w - 1) = w - 1" using w Suc.prems by (simp add: uint16_t_def)
  moreover have "nat (w - 1) = Suc (nat (w - 1 - 1))" using w by simp
  ultimately show ?case using w by (subst spin.simps) (simp add: Let_def)
qed

lemma spin_0: "spin 0 = replicate 65535 Nop"
proof -
  have s: "spin 0 = Nop # spin 65535" by (subst spin.simps) (simp add: uint16_t_def)
  have "spin 65535 = replicate (nat (65535 - 1)) Nop" by (rule spin_eq) simp_all
  then have t: "spin 65535 = replicate 65534 Nop" by simp
  have e: "(65535::nat) = Suc 65534" by simp
  show ?thesis by (subst e) (simp only: replicate_Suc s t)
qed

lemma loop_count_eq: "loop_count width = (2 * (width mod 65536) + 1) mod 65536"
proof -
  have r: "0 \<le> width mod 65536" "width mod 65536 < 65536" by simp_all
  then have a: "int32_t (width mod 65536 * 8) = width mod 65536 * 8"
    by (simp add: int32_t_id)
  have b: "int32_t (2 * (width mod 65536) + 1) = 2 * (width mod 65536) + 1"
    using r by (simp add: int32_t_id)
  show ?thesis by (simp add: loop_count_def uint16_t_def F_CPU_def a b)
qed

lemma loop_count_pos: "0 < loop_count width \<and> loop_count width < 65536"
proof -
  have "(2 * (width mod 65536) + 1) mod 65536 \<noteq> 0"
  proof
    assume "(2 * (width mod 65536) + 1) mod 65536 = 0"
    then have "(65536::int) dvd 2 * (width mod 65536) + 1" by (simp add: dvd_eq_mod_eq_0)
    moreover have "(2::int) dvd 65536" by simp
    ultimately have "(2::int) dvd 2 * (width mod 65536) + 1" by (rule dvd_trans [rotated])
    then show False by simp
  qed
  moreover have "0 \<le> (2 * (width mod 65536) + 1) mod 65536" by simp
  moreover have "(2 * (width mod 65536) + 1) mod 65536 < 65536" by simp
  ultimately show ?thesis unfolding loop_count_eq by linarith
qed

section \<open>servoscale.c: the invariant of the loop\<close>

lemma transitions_CTR:
  "state g = CTR \<Longrightarrow> transitions g len =
     (if len < - 500 \<or> len > 500 then g\<lparr>duration := uint8_t (duration g - 1)\<rparr>
      else finish (cumulate g len))"
  by (simp add: transitions_def)

lemma cumulate_abs:
  "0 \<le> offset g \<Longrightarrow> offset g \<le> 15000 \<Longrightarrow> - 1500 \<le> len \<Longrightarrow> len \<le> 1500 \<Longrightarrow>
   cumulate g len = (if duration g \<ge> 10 then g\<lparr>offset := offset g + \<bar>len\<bar>\<rparr> else g)"
  by (simp add: cumulate_def int16_t_id)

lemma finish_eq:
  "0 \<le> offset g \<Longrightarrow> offset g \<le> 16500 \<Longrightarrow>
   finish g = (if duration g \<ge> 20 then g\<lparr>offset := offset g div 10, state := INI, duration := 0\<rparr> else g)"
proof -
  assume a: "0 \<le> offset g" "offset g \<le> 16500"
  then have "0 \<le> offset g div 10" "offset g div 10 \<le> 1650" by simp_all
  then have "int16_t (offset g div 10) = offset g div 10" by (simp add: int16_t_id)
  with a show ?thesis by (simp add: finish_def c_div_nonneg)
qed

lemma main_inv_offset: "main_inv g \<Longrightarrow> 0 \<le> offset g \<and> offset g \<le> 5000"
  by (auto simp: main_inv_def split: if_splits)

lemma transitions_mid_CTR:
  assumes "main_inv g" "state g = CTR"
  shows "main_mid (transitions g len)"
proof (cases "len < - 500 \<or> len > 500")
  case True
  then have "transitions g len = g\<lparr>duration := (if duration g = 0 then 255 else duration g - 1)\<rparr>"
    using assms by (simp add: transitions_CTR uint8_t_dec main_inv_def)
  then show ?thesis using assms by (auto simp: main_inv_def main_mid_def split: if_splits)
next
  case False
  then have len: "- 500 \<le> len" "len \<le> 500" by simp_all
  have o: "0 \<le> offset g" "offset g \<le> 5000" using main_inv_offset [OF assms(1)] by simp_all
  let ?c = "cumulate g len"
  have c: "?c = (if duration g \<ge> 10 then g\<lparr>offset := offset g + \<bar>len\<bar>\<rparr> else g)"
    using o len by (intro cumulate_abs) simp_all
  have co: "0 \<le> offset ?c" "offset ?c \<le> 5500" using o len by (auto simp: c)
  have "transitions g len = finish ?c" using False assms by (simp add: transitions_CTR)
  also have "\<dots> = (if duration ?c \<ge> 20 then ?c\<lparr>offset := offset ?c div 10, state := INI, duration := 0\<rparr> else ?c)"
    using co by (intro finish_eq) simp_all
  finally have t: "transitions g len =
     (if duration ?c \<ge> 20 then ?c\<lparr>offset := offset ?c div 10, state := INI, duration := 0\<rparr> else ?c)" .
  show ?thesis
  proof (cases "duration g \<ge> 20")
    case True
    then have "state (transitions g len) = INI" "duration (transitions g len) = 0"
       "offset (transitions g len) = (offset g + \<bar>len\<bar>) div 10"
      by (simp_all add: t c)
    moreover have "0 \<le> (offset g + \<bar>len\<bar>) div 10" "(offset g + \<bar>len\<bar>) div 10 \<le> 550"
      using o len by simp_all
    ultimately show ?thesis by (simp add: main_mid_def)
  next
    case False
    then have "transitions g len = ?c" by (simp add: t c)
    then show ?thesis using False assms len unfolding c
      by (auto simp: main_inv_def main_mid_def split: if_splits)
  qed
qed

lemma transitions_mid_other:
  assumes "main_inv g" "state g \<noteq> CTR"
  shows "main_mid (transitions g len)"
  using assms
  by (cases "state g") (simp_all add: transitions_def main_inv_def main_mid_def)

lemma transitions_mid: "main_inv g \<Longrightarrow> main_mid (transitions g len)"
  by (cases "state g = CTR") (simp_all add: transitions_mid_CTR transitions_mid_other)

lemma tick_eq:
  "0 \<le> duration g \<Longrightarrow> duration g \<le> 255 \<Longrightarrow>
   tick g = (if duration g < 255 then g\<lparr>duration := duration g + 1\<rparr> else g)"
  by (simp add: tick_def uint8_t_id)

lemma tick_inv: "main_mid g \<Longrightarrow> main_inv (tick g)"
proof -
  assume m: "main_mid g"
  then have "0 \<le> duration g" "duration g \<le> 255" by (simp_all add: main_mid_def)
  then have "tick g = (if duration g < 255 then g\<lparr>duration := duration g + 1\<rparr> else g)"
    by (rule tick_eq)
  then show ?thesis using m by (auto simp: main_mid_def main_inv_def split: if_splits)
qed

lemma scale_fields [simp]:
  "state (fst (scale g len)) = state g"
  "duration (fst (scale g len)) = duration g"
  "offset (fst (scale g len)) = offset g"
  by (cases "state g"; simp add: scale_def unburst_def Let_def)+

lemma transitions_fields [simp]:
  "nobst (transitions g len) = nobst g"
  "led (transitions g len) = led g"
  by (cases "state g"; simp add: transitions_def cumulate_def finish_def)+

lemma tick_fields [simp]:
  "state (tick g) = state g"
  "nobst (tick g) = nobst g"
  "offset (tick g) = offset g"
  "led (tick g) = led g"
  by (simp_all add: tick_def)

lemma centre_led [simp]: "centre (g\<lparr>led := l\<rparr>) w = centre g w"
  by (simp add: centre_def Let_def)

lemma main_iter_fst:
  "fst (main_iter g w) = tick (fst (scale (transitions (g\<lparr>led := 0\<rparr>) (centre g w)) (centre g w)))"
  by (simp add: main_iter_def Let_def split_beta)

lemma main_iter_snd:
  "snd (main_iter g w) =
     uint16_t (int16_t (snd (scale (transitions (g\<lparr>led := 0\<rparr>) (centre g w)) (centre g w)) + 1500))"
  by (simp add: main_iter_def Let_def split_beta)

lemma main_mid_scale_eq: "main_mid (fst (scale g len)) = main_mid g"
  by (simp add: main_mid_def)

lemma main_mid_scale: "main_mid g \<Longrightarrow> main_mid (fst (scale g len))"
  by (simp add: main_mid_scale_eq)

lemma main_inv_led: "main_inv (g\<lparr>led := l\<rparr>) = main_inv g"
  by (simp add: main_inv_def)

lemma main_inv_iter: "main_inv g \<Longrightarrow> main_inv (fst (main_iter g w))"
  unfolding main_iter_fst
  by (intro tick_inv main_mid_scale transitions_mid) (simp add: main_inv_led)

lemma main_inv_boot: "main_inv boot"
  by (simp add: main_inv_def boot_def)

lemma main_inv_run: "main_inv g \<Longrightarrow> main_inv (main_run g ws)"
  by (induction ws arbitrary: g) (simp_all add: main_inv_iter)

lemma main_inv_exec: "main_inv (main_exec ns)"
  by (simp add: main_exec_def main_inv_run main_inv_boot)

section \<open>servoscale.c: the burst counter and the pulse sent\<close>

lemma unburst_nobst:
  "0 \<le> nobst g \<Longrightarrow> nobst g \<le> 30 \<Longrightarrow> nobst (unburst g) = max 0 (nobst g - 1)"
  by (simp add: unburst_def int8_t_id Let_def)

lemma scale_nobst:
  assumes "0 \<le> nobst g" "nobst g \<le> 30"
  shows "nobst (fst (scale g len)) =
     (if state g = FWD then (if 14 \<le> nobst g then 30 else nobst g + 1)
      else if state g = CTR then nobst g else max 0 (nobst g - 1))"
  using assms
  by (cases "state g")
     (simp_all add: scale_def unburst_nobst int8_t_id Let_def MAXBURST_def)

lemma main_iter_state:
  "state (fst (main_iter g w)) = state (transitions (g\<lparr>led := 0\<rparr>) (centre g w))"
  by (simp add: main_iter_fst)

lemma main_iter_offset:
  "offset (fst (main_iter g w)) = offset (transitions (g\<lparr>led := 0\<rparr>) (centre g w))"
  by (simp add: main_iter_fst)

lemma main_iter_nobst:
  assumes "0 \<le> nobst g" "nobst g \<le> 30"
  shows "nobst (fst (main_iter g w)) =
     (if state (fst (main_iter g w)) = FWD then (if 14 \<le> nobst g then 30 else nobst g + 1)
      else if state (fst (main_iter g w)) = CTR then nobst g else max 0 (nobst g - 1))"
  using assms by (simp add: main_iter_fst scale_nobst)

lemma nobst_iter: "0 \<le> nobst g \<and> nobst g \<le> 30 \<Longrightarrow>
    0 \<le> nobst (fst (main_iter g w)) \<and> nobst (fst (main_iter g w)) \<le> 30"
  by (simp add: main_iter_nobst)

lemma nobst_run: "0 \<le> nobst g \<and> nobst g \<le> 30 \<Longrightarrow>
    0 \<le> nobst (main_run g ws) \<and> nobst (main_run g ws) \<le> 30"
proof (induction ws arbitrary: g)
  case Nil
  then show ?case by simp
next
  case (Cons w ws)
  show ?case using Cons.IH [OF nobst_iter [OF Cons.prems]] by simp
qed

lemma nobst_exec: "0 \<le> nobst (main_exec ns) \<and> nobst (main_exec ns) \<le> 30"
  by (simp add: main_exec_def nobst_run boot_def)

lemma main_run_append: "main_run g (ws @ vs) = main_run (main_run g ws) vs"
  by (induction ws arbitrary: g) simp_all

lemma main_exec_append:
  "main_exec (ns @ ms) = main_run (main_exec ns) (map pulse_width ms)"
  by (simp add: main_exec_def main_run_append)

lemma main_exec_snoc:
  "main_exec (ns @ [n]) = fst (main_iter (main_exec ns) (pulse_width n))"
  by (simp add: main_exec_append)

lemma all_fwd_nobst:
  assumes "0 \<le> nobst g \<and> nobst g \<le> 30" "all_fwd g ws"
  shows "nobst (main_run g ws) =
     (if ws = [] then nobst g
      else if 15 \<le> nobst g + int (length ws) then 30 else nobst g + int (length ws))"
  using assms
proof (induction ws arbitrary: g)
  case Nil
  then show ?case by simp
next
  case (Cons w ws)
  let ?g = "fst (main_iter g w)"
  have f: "state ?g = FWD" and a: "all_fwd ?g ws" using Cons.prems(2) by simp_all
  have n: "nobst ?g = (if 14 \<le> nobst g then 30 else nobst g + 1)"
    using Cons.prems(1) f by (simp add: main_iter_nobst)
  have b: "0 \<le> nobst ?g \<and> nobst ?g \<le> 30" using Cons.prems(1) by (rule nobst_iter)
  show ?case using Cons.IH [OF b a] Cons.prems(1) by (simp add: n)
qed

text \<open>The centred reading and the pulse sent, without the conversions.\<close>

lemma centre_eq:
  assumes "main_inv g" "0 \<le> w" "w \<le> 8191"
  shows "centre g w = (if state g = CTR then w - 1500 else w - 1500 + offset g)"
proof -
  have "0 \<le> offset g" "offset g \<le> 5000" using main_inv_offset [OF assms(1)] by simp_all
  then show ?thesis using assms(2,3) by (simp add: centre_def int16_t_id Let_def)
qed

lemma centre_range:
  assumes "main_inv g" "0 \<le> w" "w \<le> 8191"
  shows "- 1500 \<le> centre g w \<and> centre g w \<le> 8000"
  using assms by (auto simp: centre_eq main_inv_def split: if_splits)

lemma c_div_pos: "0 < b \<Longrightarrow> c_div a b = (if a < 0 then - ((- a) div b) else a div b)"
  by (simp add: c_div_def)

lemma scaled_range:
  assumes "- 1500 \<le> len" "len \<le> 8000" "b = 3 \<or> b = 4 \<or> b = 5"
  shows "int16_t (c_div (int16_t (len * 2)) b) = c_div (len * 2) b"
    and "- 1000 \<le> c_div (len * 2) b" and "c_div (len * 2) b \<le> 6000"
proof -
  have l: "int16_t (len * 2) = len * 2" using assms by (simp add: int16_t_id)
  show r1: "- 1000 \<le> c_div (len * 2) b" using assms by (auto simp: c_div_pos)
  show r2: "c_div (len * 2) b \<le> 6000" using assms by (auto simp: c_div_pos)
  show "int16_t (c_div (int16_t (len * 2)) b) = c_div (len * 2) b"
    unfolding l using r1 r2 by (simp add: int16_t_id)
qed

lemma scale_snd:
  assumes "- 1500 \<le> len" "len \<le> 8000" "0 \<le> nobst g" "nobst g \<le> 30"
  shows "snd (scale g len) =
     (if state g = FWD then (if len < 400 \<or> 14 \<le> nobst g then c_div (len * 2) 5 else len)
      else if state g = REV then c_div (len * 2) 3 else len)"
  using assms scaled_range(1) [of len 5] scaled_range(1) [of len 3]
  by (cases "state g")
     (simp_all add: scale_def int8_t_id Let_def MAXBURST_def FWDFULL_def)

lemma main_iter_sent:
  assumes "main_inv g" "0 \<le> w" "w \<le> 8191" "0 \<le> nobst g" "nobst g \<le> 30"
  shows "snd (main_iter g w) =
     (if state (fst (main_iter g w)) = FWD
      then (if centre g w < 400 \<or> 14 \<le> nobst g then c_div (centre g w * 2) 5 else centre g w)
      else if state (fst (main_iter g w)) = REV then c_div (centre g w * 2) 3
      else centre g w) + 1500"
proof -
  let ?len = "centre g w"
  let ?t = "transitions (g\<lparr>led := 0\<rparr>) ?len"
  have r: "- 1500 \<le> ?len" "?len \<le> 8000" using centre_range [OF assms(1-3)] by simp_all
  have s: "snd (scale ?t ?len) =
     (if state ?t = FWD then (if ?len < 400 \<or> 14 \<le> nobst g then c_div (?len * 2) 5 else ?len)
      else if state ?t = REV then c_div (?len * 2) 3 else ?len)"
    using scale_snd [of ?len ?t] r assms(4,5) by simp
  have b: "- 1500 \<le> snd (scale ?t ?len)" "snd (scale ?t ?len) \<le> 8000"
    using r scaled_range(2,3) [of ?len 5] scaled_range(2,3) [of ?len 3] by (auto simp: s)
  have "snd (main_iter g w) = snd (scale ?t ?len) + 1500"
    using b by (simp add: main_iter_snd int16_t_id uint16_t_id)
  then show ?thesis by (simp add: s main_iter_state)
qed

section \<open>servoscale.c: the states after calibration\<close>

lemma transitions_led: "transitions (g\<lparr>led := l\<rparr>) len = (transitions g len)\<lparr>led := l\<rparr>"
  by (cases "state g") (simp_all add: transitions_def cumulate_def finish_def)

lemma main_iter_state': "state (fst (main_iter g w)) = state (transitions g (centre g w))"
  by (simp add: main_iter_fst transitions_led)

lemma main_iter_offset': "offset (fst (main_iter g w)) = offset (transitions g (centre g w))"
  by (simp add: main_iter_fst transitions_led)

lemma main_iter_duration:
  "duration (fst (main_iter g w)) = duration (tick (transitions g (centre g w)))"
  by (simp add: main_iter_fst transitions_led tick_def)

lemma transitions_keep:
  "state g \<noteq> CTR \<Longrightarrow> offset (transitions g len) = offset g \<and> state (transitions g len) \<noteq> CTR"
  by (cases "state g") (simp_all add: transitions_def)

lemma transitions_forward:
  "state g \<noteq> CTR \<Longrightarrow> MARGIN \<le> len \<Longrightarrow> state (transitions g len) = FWD"
  by (cases "state g") (simp_all add: transitions_def MARGIN_def)

lemma transitions_in_band:
  assumes "state g \<noteq> CTR" "- MARGIN < len" "len < MARGIN"
  shows "transitions g len =
     (if (state g = FWD \<or> state g = REV \<or> state g = BRK) \<and> 4 \<le> duration g
      then g\<lparr>state := (if state g = FWD then STP else INI), duration := 0\<rparr> else g)"
  using assms by (cases "state g") (simp_all add: transitions_def MARGIN_def)

lemma centre_same:
  "state g \<noteq> CTR \<Longrightarrow> state h \<noteq> CTR \<Longrightarrow> offset h = offset g \<Longrightarrow> centre h w = centre g w"
  by (simp add: centre_def)

lemma main_iter_keep:
  "state g \<noteq> CTR \<Longrightarrow>
   offset (fst (main_iter g w)) = offset g \<and> state (fst (main_iter g w)) \<noteq> CTR"
  by (simp add: main_iter_state' main_iter_offset' transitions_keep)

lemma main_run_snoc: "main_run g (ws @ [w]) = fst (main_iter (main_run g ws) w)"
  by (simp add: main_run_append)

text \<open>Forward held at one width above the margin.\<close>

lemma hold_forward:
  assumes "main_inv g" "state g \<noteq> CTR" "nobst g = 0" "MARGIN \<le> centre g w"
  shows "main_inv (main_run g (replicate k w)) \<and>
         state (main_run g (replicate k w)) \<noteq> CTR \<and>
         offset (main_run g (replicate k w)) = offset g \<and>
         nobst (main_run g (replicate k w)) = (if 15 \<le> int k then 30 else int k)"
proof (induction k)
  case 0
  then show ?case using assms by simp
next
  case (Suc k)
  let ?h = "main_run g (replicate k w)"
  have "replicate (Suc k) w = replicate k w @ [w]" by (simp add: replicate_append_same)
  then have r: "main_run g (replicate (Suc k) w) = fst (main_iter ?h w)"
    by (simp only: main_run_snoc)
  have c: "centre ?h w = centre g w" using Suc assms(2) by (intro centre_same) simp_all
  have f: "state (fst (main_iter ?h w)) = FWD"
    using Suc assms(4) by (simp add: main_iter_state' c transitions_forward)
  have b: "0 \<le> nobst ?h" "nobst ?h \<le> 30" using Suc by (simp_all split: if_splits)
  have n: "nobst (fst (main_iter ?h w)) = (if 14 \<le> nobst ?h then 30 else nobst ?h + 1)"
    using main_iter_nobst [OF b, of w] f by simp
  have "main_inv (fst (main_iter ?h w))" using Suc by (simp add: main_inv_iter)
  moreover have "offset (fst (main_iter ?h w)) = offset g" using main_iter_keep [of ?h w] Suc by simp
  moreover have "nobst (fst (main_iter ?h w)) = (if 15 \<le> int (Suc k) then 30 else int (Suc k))"
    using Suc by (simp add: n)
  ultimately show ?case using f unfolding r by simp
qed

section \<open>servoscale.c: the debounce\<close>

lemma tick_duration:
  "0 \<le> duration g \<Longrightarrow> duration g \<le> 255 \<Longrightarrow>
   duration (tick g) = (if duration g < 255 then duration g + 1 else 255)"
  by (simp add: tick_eq)

lemma in_band_iter:
  assumes "state g \<noteq> CTR" "0 \<le> duration g" "duration g \<le> 255"
    and "- MARGIN < centre g w" "centre g w < MARGIN"
  shows "state (fst (main_iter g w)) =
           (if (state g = FWD \<or> state g = REV \<or> state g = BRK) \<and> 4 \<le> duration g
            then (if state g = FWD then STP else INI) else state g)"
    and "duration (fst (main_iter g w)) =
           (if (state g = FWD \<or> state g = REV \<or> state g = BRK) \<and> 4 \<le> duration g then 1
            else if duration g < 255 then duration g + 1 else 255)"
proof -
  note t = transitions_in_band [OF assms(1,4,5)]
  show "state (fst (main_iter g w)) =
           (if (state g = FWD \<or> state g = REV \<or> state g = BRK) \<and> 4 \<le> duration g
            then (if state g = FWD then STP else INI) else state g)"
    by (simp add: main_iter_state' t)
  have "0 \<le> duration (transitions g (centre g w))" "duration (transitions g (centre g w)) \<le> 255"
    using assms(2,3) by (simp_all add: t)
  then show "duration (fst (main_iter g w)) =
           (if (state g = FWD \<or> state g = REV \<or> state g = BRK) \<and> 4 \<le> duration g then 1
            else if duration g < 255 then duration g + 1 else 255)"
    by (simp add: main_iter_duration tick_duration) (simp add: t)
qed

lemma in_band_run:
  assumes "state g \<noteq> CTR" "0 \<le> duration g" "duration g \<le> 255"
    and "\<forall>w \<in> set ws. - MARGIN < centre g w \<and> centre g w < MARGIN"
  shows "state (main_run g ws) =
     (if ws = [] then state g
      else if (state g = FWD \<or> state g = REV \<or> state g = BRK) \<and> duration g + int (length ws) \<le> 4
      then state g
      else if state g = FWD then STP else if state g = REV \<or> state g = BRK then INI else state g)"
  using assms
proof (induction ws arbitrary: g)
  case Nil
  then show ?case by simp
next
  case (Cons w ws)
  let ?h = "fst (main_iter g w)"
  have b: "- MARGIN < centre g w" "centre g w < MARGIN" using Cons.prems(4) by simp_all
  note s = in_band_iter(1) [OF Cons.prems(1-3) b]
  note d = in_band_iter(2) [OF Cons.prems(1-3) b]
  have k: "state ?h \<noteq> CTR" "offset ?h = offset g"
    using main_iter_keep [OF Cons.prems(1), of w] by simp_all
  have r: "0 \<le> duration ?h" "duration ?h \<le> 255" using Cons.prems(2,3) by (simp_all add: d)
  have "\<forall>v \<in> set ws. centre ?h v = centre g v"
    using k Cons.prems(1) by (intro ballI centre_same) simp_all
  then have a: "\<forall>v \<in> set ws. - MARGIN < centre ?h v \<and> centre ?h v < MARGIN"
    using Cons.prems(4) by simp
  note ih = Cons.IH [OF k(1) r a]
  show ?case
  proof (cases "(state g = FWD \<or> state g = REV \<or> state g = BRK) \<and> 4 \<le> duration g")
    case True
    then have "state ?h = (if state g = FWD then STP else INI)" "duration ?h = 1"
      by (simp_all add: s d)
    then show ?thesis using ih True by auto
  next
    case False
    then have "state ?h = state g" "duration ?h = (if duration g < 255 then duration g + 1 else 255)"
      unfolding s d by (simp_all only: if_False)
    then show ?thesis using ih False Cons.prems(2) by (auto split: if_splits)
  qed
qed

lemma main_inv_duration: "main_inv g \<Longrightarrow> 0 \<le> duration g \<and> duration g \<le> 255"
  by (simp add: main_inv_def)

section \<open>The second switch in CTR\<close>

lemma scale_CTR: "state g = CTR \<Longrightarrow> scale g len = (g\<lparr>led := 1\<rparr>, len)"
  by (simp add: scale_def)

lemma sketch_scale_CTR: "state g = CTR \<Longrightarrow> sketch_scale g len = (sketch_unburst g, len)"
  by (simp add: sketch_scale_def)

section \<open>The sketch: the invariant of \<open>loop\<close>\<close>

lemma sketch_transitions_CTR:
  "state g = CTR \<Longrightarrow> sketch_transitions g len =
     (if len < - 1500 \<or> len > 1500 then g\<lparr>duration := int16_t (duration g - 1)\<rparr>
      else finish (cumulate g len))"
  by (simp add: sketch_transitions_def)

lemma sketch_inv_offset: "sketch_inv g \<Longrightarrow> 0 \<le> offset g \<and> offset g \<le> 15000"
  by (auto simp: sketch_inv_def split: if_splits)

lemma sketch_transitions_mid_CTR:
  assumes "sketch_inv g" "state g = CTR"
  shows "sketch_mid (sketch_transitions g len)"
proof (cases "len < - 1500 \<or> len > 1500")
  case True
  have "int16_t (duration g - 1) = duration g - 1"
    using assms(1) by (simp add: int16_t_id sketch_inv_def)
  then have "sketch_transitions g len = g\<lparr>duration := duration g - 1\<rparr>"
    using assms True by (simp add: sketch_transitions_CTR)
  then show ?thesis using assms by (auto simp: sketch_inv_def sketch_mid_def split: if_splits)
next
  case False
  then have len: "- 1500 \<le> len" "len \<le> 1500" by simp_all
  have o: "0 \<le> offset g" "offset g \<le> 15000" using sketch_inv_offset [OF assms(1)] by simp_all
  let ?c = "cumulate g len"
  have c: "?c = (if duration g \<ge> 10 then g\<lparr>offset := offset g + \<bar>len\<bar>\<rparr> else g)"
    using o len by (rule cumulate_abs)
  have co: "0 \<le> offset ?c" "offset ?c \<le> 16500" using o len by (auto simp: c)
  have "sketch_transitions g len = finish ?c" using False assms by (simp add: sketch_transitions_CTR)
  also have "\<dots> = (if duration ?c \<ge> 20 then ?c\<lparr>offset := offset ?c div 10, state := INI, duration := 0\<rparr> else ?c)"
    using co by (rule finish_eq)
  finally have t: "sketch_transitions g len =
     (if duration ?c \<ge> 20 then ?c\<lparr>offset := offset ?c div 10, state := INI, duration := 0\<rparr> else ?c)" .
  show ?thesis
  proof (cases "duration g \<ge> 20")
    case True
    then have "state (sketch_transitions g len) = INI" "duration (sketch_transitions g len) = 0"
       "offset (sketch_transitions g len) = (offset g + \<bar>len\<bar>) div 10"
      by (simp_all add: t c)
    moreover have "0 \<le> (offset g + \<bar>len\<bar>) div 10" "(offset g + \<bar>len\<bar>) div 10 \<le> 1650"
      using o len by simp_all
    ultimately show ?thesis by (simp add: sketch_mid_def)
  next
    case False
    then have "sketch_transitions g len = ?c" by (simp add: t c)
    then show ?thesis using False assms len unfolding c
      by (auto simp: sketch_inv_def sketch_mid_def split: if_splits)
  qed
qed

lemma sketch_transitions_mid_other:
  assumes "sketch_inv g" "state g \<noteq> CTR"
  shows "sketch_mid (sketch_transitions g len)"
  using assms
  by (cases "state g") (simp_all add: sketch_transitions_def sketch_inv_def sketch_mid_def)

lemma sketch_transitions_mid: "sketch_inv g \<Longrightarrow> sketch_mid (sketch_transitions g len)"
  by (cases "state g = CTR") (simp_all add: sketch_transitions_mid_CTR sketch_transitions_mid_other)

lemma sketch_tick_eq:
  "- 1 \<le> duration g \<Longrightarrow> duration g \<le> 1000 \<Longrightarrow>
   sketch_tick g = g\<lparr>duration := (if duration g < 1000 then duration g + 1 else 1000)\<rparr>"
  by (simp add: sketch_tick_def int16_t_id Let_def)

lemma sketch_tick_inv: "sketch_mid g \<Longrightarrow> sketch_inv (sketch_tick g)"
proof -
  assume m: "sketch_mid g"
  then have "- 1 \<le> duration g" "duration g \<le> 1000" by (simp_all add: sketch_mid_def)
  then have "sketch_tick g = g\<lparr>duration := (if duration g < 1000 then duration g + 1 else 1000)\<rparr>"
    by (rule sketch_tick_eq)
  then show ?thesis using m by (auto simp: sketch_mid_def sketch_inv_def split: if_splits)
qed

lemma sketch_scale_fields [simp]:
  "state (fst (sketch_scale g len)) = state g"
  "duration (fst (sketch_scale g len)) = duration g"
  "offset (fst (sketch_scale g len)) = offset g"
  by (cases "state g"; simp add: sketch_scale_def sketch_unburst_def Let_def)+

lemma sketch_transitions_fields [simp]:
  "nobst (sketch_transitions g len) = nobst g"
  by (cases "state g"; simp add: sketch_transitions_def cumulate_def finish_def)

lemma sketch_tick_fields [simp]:
  "state (sketch_tick g) = state g"
  "nobst (sketch_tick g) = nobst g"
  "offset (sketch_tick g) = offset g"
  by (simp_all add: sketch_tick_def Let_def)

lemma loop_fst:
  "fst (loop g p) =
     sketch_tick (fst (sketch_scale (sketch_transitions g (sketch_centre g p)) (sketch_centre g p)))"
  by (simp add: loop_def Let_def split_beta)

lemma loop_snd:
  "snd (loop g p) =
     uint16_t (int16_t (snd (sketch_scale (sketch_transitions g (sketch_centre g p)) (sketch_centre g p)) + 1500))"
  by (simp add: loop_def Let_def split_beta)

lemma sketch_mid_scale_eq: "sketch_mid (fst (sketch_scale g len)) = sketch_mid g"
  by (simp add: sketch_mid_def)

lemma sketch_inv_loop: "sketch_inv g \<Longrightarrow> sketch_inv (fst (loop g p))"
  unfolding loop_fst
  by (intro sketch_tick_inv) (simp add: sketch_mid_scale_eq sketch_transitions_mid)

lemma sketch_inv_run: "sketch_inv g \<Longrightarrow> sketch_inv (loop_run g ps)"
  by (induction ps arbitrary: g) (simp_all add: sketch_inv_loop)

lemma sketch_inv_boot: "sketch_inv (loop_run boot ps)"
  by (rule sketch_inv_run) (simp add: sketch_inv_def boot_def)

lemma sketch_unburst_nobst:
  "0 \<le> nobst g \<Longrightarrow> nobst g \<le> 40 \<Longrightarrow> nobst (sketch_unburst g) = max 0 (nobst g - 1)"
  by (simp add: sketch_unburst_def int16_t_id Let_def)

lemma sketch_scale_nobst:
  assumes "0 \<le> nobst g" "nobst g \<le> 40"
  shows "nobst (fst (sketch_scale g len)) =
     (if state g = FWD then (if 19 \<le> nobst g then 40 else nobst g + 1)
      else max 0 (nobst g - 1))"
  using assms
  by (cases "state g")
     (simp_all add: sketch_scale_def sketch_unburst_nobst int16_t_id Let_def sketch_MAXBURST_def)

lemma loop_state: "state (fst (loop g p)) = state (sketch_transitions g (sketch_centre g p))"
  by (simp add: loop_fst)

lemma loop_nobst:
  assumes "0 \<le> nobst g" "nobst g \<le> 40"
  shows "nobst (fst (loop g p)) =
     (if state (fst (loop g p)) = FWD then (if 19 \<le> nobst g then 40 else nobst g + 1)
      else max 0 (nobst g - 1))"
  using assms by (simp add: loop_fst sketch_scale_nobst)

lemma sketch_nobst_run: "0 \<le> nobst g \<and> nobst g \<le> 40 \<Longrightarrow>
    0 \<le> nobst (loop_run g ps) \<and> nobst (loop_run g ps) \<le> 40"
proof (induction ps arbitrary: g)
  case Nil
  then show ?case by simp
next
  case (Cons p ps)
  have "0 \<le> nobst (fst (loop g p)) \<and> nobst (fst (loop g p)) \<le> 40"
    using Cons.prems by (simp add: loop_nobst)
  from Cons.IH [OF this] show ?case by simp
qed

lemma sketch_nobst_boot: "0 \<le> nobst (loop_run boot ps) \<and> nobst (loop_run boot ps) \<le> 40"
  by (rule sketch_nobst_run) (simp add: boot_def)

lemma sketch_centre_eq:
  assumes "sketch_inv g" "0 \<le> p" "p \<le> 16000"
  shows "sketch_centre g p = (if state g = CTR then p - 1500 else p - 1500 + offset g)"
proof -
  have "0 \<le> offset g" "offset g \<le> 15000" using sketch_inv_offset [OF assms(1)] by simp_all
  then show ?thesis using assms(2,3) by (simp add: sketch_centre_def int16_t_id Let_def)
qed

lemma sketch_centre_range:
  assumes "sketch_inv g" "0 \<le> p" "p \<le> 16000"
  shows "- 1500 \<le> sketch_centre g p \<and> sketch_centre g p \<le> 16150"
  using assms by (auto simp: sketch_centre_eq sketch_inv_def split: if_splits)

lemma sketch_scaled_range:
  assumes "- 1500 \<le> len" "len \<le> 16150" "b = 4 \<or> b = 5"
  shows "int16_t (c_div (int16_t (len * 2)) b) = c_div (len * 2) b"
    and "- 1000 \<le> c_div (len * 2) b" and "c_div (len * 2) b \<le> 9000"
proof -
  have l: "int16_t (len * 2) = len * 2" using assms by (simp add: int16_t_id)
  show r1: "- 1000 \<le> c_div (len * 2) b" using assms by (auto simp: c_div_pos)
  show r2: "c_div (len * 2) b \<le> 9000" using assms by (auto simp: c_div_pos)
  show "int16_t (c_div (int16_t (len * 2)) b) = c_div (len * 2) b"
    unfolding l using r1 r2 by (simp add: int16_t_id)
qed

lemma c_div_half: "c_div (len * 2) 4 = c_div len 2"
proof -
  have "(k * 2) div 4 = k div 2" for k :: int by presburger
  from this [of len] this [of "- len"] show ?thesis by (simp add: c_div_pos)
qed

lemma sketch_scale_snd:
  assumes "- 1500 \<le> len" "len \<le> 16150" "0 \<le> nobst g" "nobst g \<le> 40"
  shows "snd (sketch_scale g len) =
     (if state g = FWD then (if len < 300 \<or> 19 \<le> nobst g then c_div (len * 2) 5 else len)
      else if state g = REV then c_div len 2 else len)"
  using assms sketch_scaled_range(1) [of len 5] sketch_scaled_range(1) [of len 4]
  by (cases "state g")
     (simp_all add: sketch_scale_def int16_t_id Let_def sketch_MAXBURST_def sketch_FWDFULL_def c_div_half)

lemma loop_sent:
  assumes "sketch_inv g" "0 \<le> p" "p \<le> 16000" "0 \<le> nobst g" "nobst g \<le> 40"
  shows "snd (loop g p) =
     (if state (fst (loop g p)) = FWD
      then (if sketch_centre g p < 300 \<or> 19 \<le> nobst g then c_div (sketch_centre g p * 2) 5
            else sketch_centre g p)
      else if state (fst (loop g p)) = REV then c_div (sketch_centre g p) 2
      else sketch_centre g p) + 1500"
proof -
  let ?len = "sketch_centre g p"
  let ?t = "sketch_transitions g ?len"
  have r: "- 1500 \<le> ?len" "?len \<le> 16150" using sketch_centre_range [OF assms(1-3)] by simp_all
  have s: "snd (sketch_scale ?t ?len) =
     (if state ?t = FWD then (if ?len < 300 \<or> 19 \<le> nobst g then c_div (?len * 2) 5 else ?len)
      else if state ?t = REV then c_div ?len 2 else ?len)"
    using sketch_scale_snd [of ?len ?t] r assms(4,5) by simp
  have b: "- 1500 \<le> snd (sketch_scale ?t ?len)" "snd (sketch_scale ?t ?len) \<le> 16150"
    using r sketch_scaled_range(2,3) [of ?len 5] sketch_scaled_range(2,3) [of ?len 4]
    by (auto simp: s c_div_half [symmetric])
  have "snd (loop g p) = snd (sketch_scale ?t ?len) + 1500"
    using b by (simp add: loop_snd int16_t_id uint16_t_id)
  then show ?thesis by (simp add: s loop_state)
qed

section \<open>The two statements of the calibration\<close>

lemma cumulate_finish_nonneg:
  assumes "0 \<le> offset g" "offset g \<le> 15000" "- 1500 \<le> len" "len \<le> 1500"
  shows "cumulate g len = (if 10 \<le> duration g then g\<lparr>offset := offset g + \<bar>len\<bar>\<rparr> else g)"
    and "0 \<le> offset (cumulate g len)"
    and "offset (finish (cumulate g len)) =
           (if 20 \<le> duration g then offset (cumulate g len) div 10 else offset (cumulate g len))"
    and "0 \<le> offset (finish (cumulate g len))"
proof -
  let ?c = "cumulate g len"
  show c: "?c = (if 10 \<le> duration g then g\<lparr>offset := offset g + \<bar>len\<bar>\<rparr> else g)"
    using assms by (rule cumulate_abs)
  have co: "0 \<le> offset ?c" "offset ?c \<le> 16500" using assms by (auto simp: c)
  show "0 \<le> offset ?c" by (rule co)
  have d: "duration ?c = duration g" by (simp add: c)
  show f: "offset (finish ?c) = (if 20 \<le> duration g then offset ?c div 10 else offset ?c)"
    using finish_eq [OF co] by (simp add: d)
  have "0 \<le> offset ?c div 10" using co by simp
  then show "0 \<le> offset (finish ?c)" using co by (simp add: f)
qed

section \<open>Pulses outside the window, away from \<open>duration = 0\<close>\<close>

lemma implausible_pulse_decrements:
  assumes "state g = CTR" "centre g w < - 500 \<or> 500 < centre g w"
    and "1 \<le> duration g" "duration g \<le> 255"
  shows "transitions g (centre g w) = g\<lparr>duration := duration g - 1\<rparr>"
    and "state (fst (main_iter g w)) = CTR"
    and "offset (fst (main_iter g w)) = offset g"
    and "nobst (fst (main_iter g w)) = nobst g"
    and "duration (fst (main_iter g w)) = duration g"
proof -
  have u: "uint8_t (duration g - 1) = duration g - 1"
    using assms(3,4) by (simp add: uint8_t_id)
  have t: "transitions h (centre g w) = h\<lparr>duration := duration h - 1\<rparr>"
    if "state h = CTR" "duration h = duration g" for h
    using that assms(2) u by (auto simp: transitions_CTR)
  show "transitions g (centre g w) = g\<lparr>duration := duration g - 1\<rparr>"
    using assms(1) by (simp add: t)
  have f: "fst (main_iter g w) = tick (g\<lparr>duration := duration g - 1, led := 1\<rparr>)"
    using assms(1) by (simp add: main_iter_fst t scale_CTR)
  show "state (fst (main_iter g w)) = CTR" "offset (fst (main_iter g w)) = offset g"
       "nobst (fst (main_iter g w)) = nobst g"
    using assms(1) by (simp_all add: f)
  show "duration (fst (main_iter g w)) = duration g"
    using assms(3,4) by (simp add: f tick_duration)
qed

lemma sketch_implausible_pulse_decrements:
  assumes "state g = CTR" "sketch_centre g p < - 1500 \<or> 1500 < sketch_centre g p"
    and "0 \<le> duration g" "duration g \<le> 1000"
  shows "sketch_transitions g (sketch_centre g p) = g\<lparr>duration := duration g - 1\<rparr>"
    and "state (fst (loop g p)) = CTR"
    and "offset (fst (loop g p)) = offset g"
    and "duration (fst (loop g p)) = duration g"
proof -
  have u: "int16_t (duration g - 1) = duration g - 1"
    using assms(3,4) by (simp add: int16_t_id)
  show t: "sketch_transitions g (sketch_centre g p) = g\<lparr>duration := duration g - 1\<rparr>"
    using assms(1,2) u by (auto simp: sketch_transitions_CTR)
  have f: "fst (loop g p) = sketch_tick (sketch_unburst (g\<lparr>duration := duration g - 1\<rparr>))"
    using assms(1) by (simp add: loop_fst t sketch_scale_CTR)
  have d: "duration (sketch_unburst (g\<lparr>duration := duration g - 1\<rparr>)) = duration g - 1"
    by (simp add: sketch_unburst_def Let_def)
  show "state (fst (loop g p)) = CTR" "offset (fst (loop g p)) = offset g"
    using assms(1) by (simp_all add: f sketch_unburst_def Let_def)
  show "duration (fst (loop g p)) = duration g"
    using assms(3,4) d by (simp add: f sketch_tick_eq)
qed

section \<open>Concrete runs\<close>

lemma pulse_width_values:
  "pulse_width 2400 = 1500" "pulse_width 2448 = 1530" "pulse_width 2560 = 1600"
  "pulse_width 3200 = 2000" "pulse_width 3360 = 2100" "pulse_width 1600 = 1000"
  by (simp_all add: pulse_width_eq)

lemma after_calibration:
  "main_run boot (replicate 21 1500) = \<lparr>state = INI, duration = 1, led = 0, nobst = 0, offset = 0\<rparr>"
  by code_simp

lemma four_forward:
  "main_run \<lparr>state = INI, duration = 1, led = 0, nobst = 0, offset = 0\<rparr> (replicate 4 1600) =
     \<lparr>state = FWD, duration = 4, led = 1, nobst = 4, offset = 0\<rparr>"
  "main_run \<lparr>state = INI, duration = 1, led = 0, nobst = 0, offset = 0\<rparr> [1600] =
     \<lparr>state = FWD, duration = 1, led = 1, nobst = 1, offset = 0\<rparr>"
  by code_simp+

lemma exec_after_calibration:
  "main_exec (replicate 21 2400) = \<lparr>state = INI, duration = 1, led = 0, nobst = 0, offset = 0\<rparr>"
  by (simp only: main_exec_def map_replicate pulse_width_values after_calibration)

lemma exec_forward:
  "main_exec (replicate 21 2400 @ replicate 4 2560) =
     \<lparr>state = FWD, duration = 4, led = 1, nobst = 4, offset = 0\<rparr>"
  "main_exec (replicate 21 2400 @ [2560]) =
     \<lparr>state = FWD, duration = 1, led = 1, nobst = 1, offset = 0\<rparr>"
  by (simp_all only: main_exec_append exec_after_calibration map_replicate list.map
        pulse_width_values four_forward)

lemma margin_widths: "pulse_width 2464 = 1540" "pulse_width 2336 = 1460"
  by (simp_all add: pulse_width_eq)

lemma sketch_after_calibration:
  "loop_run boot (replicate 21 1500) = \<lparr>state = INI, duration = 1, led = 1, nobst = 0, offset = 0\<rparr>"
  by code_simp

section \<open>The claims\<close>

subsection \<open>The burst counter\<close>

text \<open>
  C1. After every iteration \<open>nobst\<close> lies between 0 and 2 * MAXBURST. After MAXBURST or
  more consecutive iterations that end in FWD it is 2 * MAXBURST. Whenever it is at least
  MAXBURST, an iteration that ends in FWD sends the centred width times 2/5 (plus 1500),
  whatever the width, and leaves the counter at 2 * MAXBURST; an iteration that does not
  end in FWD takes 1 from it (none in CTR, where it is 0), so only such iterations bring it
  under MAXBURST. In general an iteration that ends in FWD sends the width unscaled exactly
  when the width is FWDFULL or more and the counter was under MAXBURST - 1 before it.
\<close>

theorem burst_counter_bounded_and_locked:
  "0 \<le> nobst (main_exec ns) \<and> nobst (main_exec ns) \<le> 2 * MAXBURST \<and>
   (MAXBURST \<le> int (length ms) \<and> all_fwd (main_exec ns) (map pulse_width ms) \<longrightarrow>
      nobst (main_exec (ns @ ms)) = 2 * MAXBURST) \<and>
   (MAXBURST \<le> nobst (main_exec ns) \<and> state (main_exec (ns @ [n])) = FWD \<longrightarrow>
      snd (main_iter (main_exec ns) (pulse_width n)) =
        c_div (centre (main_exec ns) (pulse_width n) * 2) 5 + 1500 \<and>
      nobst (main_exec (ns @ [n])) = 2 * MAXBURST) \<and>
   (state (main_exec (ns @ [n])) = FWD \<longrightarrow>
      snd (main_iter (main_exec ns) (pulse_width n)) =
        (if centre (main_exec ns) (pulse_width n) < FWDFULL \<or> MAXBURST - 1 \<le> nobst (main_exec ns)
         then c_div (centre (main_exec ns) (pulse_width n) * 2) 5
         else centre (main_exec ns) (pulse_width n)) + 1500) \<and>
   (state (main_exec (ns @ [n])) \<noteq> FWD \<longrightarrow>
      nobst (main_exec (ns @ [n])) =
        (if state (main_exec (ns @ [n])) = CTR then nobst (main_exec ns)
         else max 0 (nobst (main_exec ns) - 1)))"
proof -
  let ?g = "main_exec ns"
  let ?w = "pulse_width n"
  have b: "0 \<le> nobst ?g \<and> nobst ?g \<le> 30" by (rule nobst_exec)
  have w: "0 \<le> ?w" "?w \<le> 8191" using pulse_width_range [of n] by simp_all
  have i: "main_inv ?g" by (rule main_inv_exec)
  have p1: "0 \<le> nobst ?g \<and> nobst ?g \<le> 2 * MAXBURST" using b by (simp add: MAXBURST_def)
  have p2: "nobst (main_exec (ns @ ms)) = 2 * MAXBURST"
    if "MAXBURST \<le> int (length ms) \<and> all_fwd ?g (map pulse_width ms)"
  proof -
    from that have l: "15 \<le> int (length ms)" and a: "all_fwd ?g (map pulse_width ms)"
      by (simp_all add: MAXBURST_def)
    from l have "ms \<noteq> []" by auto
    then show ?thesis using all_fwd_nobst [OF b a] l b
      by (simp add: main_exec_append MAXBURST_def)
  qed
  have p3: "snd (main_iter ?g ?w) = c_div (centre ?g ?w * 2) 5 + 1500 \<and>
      nobst (main_exec (ns @ [n])) = 2 * MAXBURST"
    if "MAXBURST \<le> nobst ?g \<and> state (main_exec (ns @ [n])) = FWD"
  proof -
    from that have l: "15 \<le> nobst ?g" and f: "state (fst (main_iter ?g ?w)) = FWD"
      by (simp_all add: MAXBURST_def main_exec_snoc)
    have "snd (main_iter ?g ?w) = c_div (centre ?g ?w * 2) 5 + 1500"
      using main_iter_sent [OF i w] b l f by simp
    moreover have "nobst (fst (main_iter ?g ?w)) = 30"
      using main_iter_nobst [of ?g ?w] b l f by simp
    ultimately show ?thesis by (simp add: main_exec_snoc MAXBURST_def)
  qed
  have p4: "nobst (main_exec (ns @ [n])) =
        (if state (main_exec (ns @ [n])) = CTR then nobst ?g else max 0 (nobst ?g - 1))"
    if "state (main_exec (ns @ [n])) \<noteq> FWD"
    using that main_iter_nobst [of ?g ?w] b by (simp add: main_exec_snoc)
  have p5: "snd (main_iter ?g ?w) =
        (if centre ?g ?w < FWDFULL \<or> MAXBURST - 1 \<le> nobst ?g then c_div (centre ?g ?w * 2) 5
         else centre ?g ?w) + 1500"
    if "state (main_exec (ns @ [n])) = FWD"
    using that main_iter_sent [OF i w] b by (simp add: main_exec_snoc FWDFULL_def MAXBURST_def)
  from p1 p2 p3 p4 p5 show ?thesis by blast
qed

theorem burst_counter_bounded_and_locked_witness:
  "MAXBURST \<le> int (length (replicate 15 (3200::nat))) \<and>
   all_fwd (main_exec (replicate 21 2400)) (map pulse_width (replicate 15 3200)) \<and>
   nobst (main_exec (replicate 21 2400 @ replicate 15 3200)) = 2 * MAXBURST \<and>
   MAXBURST \<le> nobst (main_exec (replicate 21 2400 @ replicate 15 3200)) \<and>
   state (main_exec ((replicate 21 2400 @ replicate 15 3200) @ [3200])) = FWD \<and>
   snd (main_iter (main_exec (replicate 21 2400 @ replicate 15 3200)) (pulse_width 3200)) = 1700 \<and>
   state (main_exec ((replicate 21 2400 @ replicate 15 3200) @ [1600])) = BRK \<and>
   nobst (main_exec ((replicate 21 2400 @ replicate 15 3200) @ [1600])) = 29"
proof -
  have e: "main_exec (replicate 21 2400) = \<lparr>state = INI, duration = 1, led = 0, nobst = 0, offset = 0\<rparr>"
    by (simp only: main_exec_def map_replicate pulse_width_values after_calibration)
  have a: "all_fwd \<lparr>state = INI, duration = 1, led = 0, nobst = 0, offset = 0\<rparr> (replicate 15 2000)"
    by code_simp
  have g: "main_run \<lparr>state = INI, duration = 1, led = 0, nobst = 0, offset = 0\<rparr> (replicate 15 2000)
     = \<lparr>state = FWD, duration = 15, led = 1, nobst = 30, offset = 0\<rparr>"
    by code_simp
  have e2: "main_exec (replicate 21 2400 @ replicate 15 3200) = \<lparr>state = FWD, duration = 15, led = 1, nobst = 30, offset = 0\<rparr>"
    by (simp only: main_exec_append e map_replicate pulse_width_values g)
  have i1: "main_iter \<lparr>state = FWD, duration = 15, led = 1, nobst = 30, offset = 0\<rparr> 2000
     = (\<lparr>state = FWD, duration = 16, led = 1, nobst = 30, offset = 0\<rparr>, 1700)"
    by code_simp
  have i2: "main_iter \<lparr>state = FWD, duration = 15, led = 1, nobst = 30, offset = 0\<rparr> 1000
     = (\<lparr>state = BRK, duration = 1, led = 0, nobst = 29, offset = 0\<rparr>, 1000)"
    by code_simp
  have l: "MAXBURST \<le> int (length (replicate 15 (3200::nat)))" by (simp add: MAXBURST_def)
  have a': "all_fwd (main_exec (replicate 21 2400)) (map pulse_width (replicate 15 3200))"
    by (simp only: e map_replicate pulse_width_values a)
  have s1: "state (main_exec ((replicate 21 2400 @ replicate 15 3200) @ [3200])) = FWD"
    unfolding main_exec_snoc e2 pulse_width_values i1 by simp
  have s2: "state (main_exec ((replicate 21 2400 @ replicate 15 3200) @ [1600])) = BRK"
    unfolding main_exec_snoc e2 pulse_width_values i2 by simp
  have m: "MAXBURST \<le> nobst (main_exec (replicate 21 2400 @ replicate 15 3200))"
    by (simp add: e2 MAXBURST_def)
  note t1 = burst_counter_bounded_and_locked [of "replicate 21 2400" "replicate 15 3200" 3200]
  note t2 = burst_counter_bounded_and_locked [of "replicate 21 2400 @ replicate 15 3200" "[]" 3200]
  note t3 = burst_counter_bounded_and_locked [of "replicate 21 2400 @ replicate 15 3200" "[]" 1600]
  have c1: "nobst (main_exec (replicate 21 2400 @ replicate 15 3200)) = 2 * MAXBURST"
    using t1 l a' by blast
  have c2: "snd (main_iter (main_exec (replicate 21 2400 @ replicate 15 3200)) (pulse_width 3200)) =
        c_div (centre (main_exec (replicate 21 2400 @ replicate 15 3200)) (pulse_width 3200) * 2) 5 + 1500"
    using t2 m s1 by blast
  have c2': "c_div (centre \<lparr>state = FWD, duration = 15, led = 1, nobst = 30, offset = 0\<rparr> 2000 * 2) 5 + 1500 = 1700"
    by code_simp
  have c3: "nobst (main_exec ((replicate 21 2400 @ replicate 15 3200) @ [1600])) =
      max 0 (nobst (main_exec (replicate 21 2400 @ replicate 15 3200)) - 1)"
    using t3 s2 by simp
  have c2'': "snd (main_iter (main_exec (replicate 21 2400 @ replicate 15 3200)) (pulse_width 3200)) = 1700"
    using c2 unfolding e2 pulse_width_values c2' .
  have c3': "nobst (main_exec ((replicate 21 2400 @ replicate 15 3200) @ [1600])) = 29"
    using c3 unfolding e2 by simp
  from l a' c1 m s1 c2'' s2 c3' show ?thesis by blast
qed

subsection \<open>Calibration on a constant deviation\<close>

text \<open>
  C2. From power-up, with pulses of 1530 only: after 20 pulses both programs are still in
  CTR, with \<open>duration = 20\<close> and 300 accumulated over 10 samples. The pulse number 21 is
  accumulated as well, before the division by 10: the offset is 33, not 30, the state is
  INI, and \<open>duration\<close>, reset to 0 by the switch, is 1 after the iteration.
\<close>

theorem calibration_ends_on_sample_21:
  "main_exec (replicate 20 2448) = \<lparr>state = CTR, duration = 20, led = 1, nobst = 0, offset = 300\<rparr> \<and>
   main_exec (replicate 21 2448) = \<lparr>state = INI, duration = 1, led = 0, nobst = 0, offset = 33\<rparr> \<and>
   loop_run boot (replicate 20 1530) = \<lparr>state = CTR, duration = 20, led = 1, nobst = 0, offset = 300\<rparr> \<and>
   loop_run boot (replicate 21 1530) = \<lparr>state = INI, duration = 1, led = 1, nobst = 0, offset = 33\<rparr>"
proof -
  have w: "pulse_width 2448 = 1530"
    by (simp add: pulse_width_eq)
  have a: "main_run boot (replicate 20 1530) = \<lparr>state = CTR, duration = 20, led = 1, nobst = 0, offset = 300\<rparr>"
    by code_simp
  have b: "main_run boot (replicate 21 1530) = \<lparr>state = INI, duration = 1, led = 0, nobst = 0, offset = 33\<rparr>"
    by code_simp
  have c: "loop_run boot (replicate 20 1530) = \<lparr>state = CTR, duration = 20, led = 1, nobst = 0, offset = 300\<rparr>"
    by code_simp
  have d: "loop_run boot (replicate 21 1530) = \<lparr>state = INI, duration = 1, led = 1, nobst = 0, offset = 33\<rparr>"
    by code_simp
  from a b c d show ?thesis by (simp only: main_exec_def map_replicate w)
qed

subsection \<open>Implausible pulses during calibration\<close>

text \<open>
  C3. In servoscale.c the claim fails at power-up. With \<open>duration = 0\<close>, a pulse of 3500,
  centred 2000 and outside the window, does not decrement \<open>duration\<close>: the \<open>uint8_t\<close> wraps
  to 255 and the iteration ends with 255. The pulse is not without effect either: the
  next pulse inside the window (1530) ends the calibration at once, on that one sample.
  The sketch, on the same pulse, goes to -1 in the switch and is back in its power-up
  state after the iteration.
\<close>

theorem implausible_pulse_at_boot_wraps:
  "state (main_exec []) = CTR \<and> duration (main_exec []) = 0 \<and>
   centre (main_exec []) (pulse_width 5600) = 2000 \<and>
   transitions (main_exec []) (centre (main_exec []) (pulse_width 5600)) = boot\<lparr>duration := 255\<rparr> \<and>
   main_exec [5600] = \<lparr>state = CTR, duration = 255, led = 1, nobst = 0, offset = 0\<rparr> \<and>
   main_exec [5600, 2448] = \<lparr>state = INI, duration = 1, led = 0, nobst = 0, offset = 3\<rparr> \<and>
   sketch_centre boot 3500 = 2000 \<and>
   sketch_transitions boot (sketch_centre boot 3500) = boot\<lparr>duration := - 1\<rparr> \<and>
   fst (loop boot 3500) = boot"
proof -
  have w: "pulse_width 5600 = 3500" "pulse_width 2448 = 1530"
    by (simp_all add: pulse_width_eq)
  have e: "main_exec [] = boot" by (simp add: main_exec_def)
  have a: "state boot = CTR" "duration boot = 0" by (simp_all add: boot_def)
  have b: "centre boot 3500 = 2000" "transitions boot 2000 = boot\<lparr>duration := 255\<rparr>"
    by code_simp+
  have c: "main_run boot [3500] = \<lparr>state = CTR, duration = 255, led = 1, nobst = 0, offset = 0\<rparr>"
      "main_run boot [3500, 1530] = \<lparr>state = INI, duration = 1, led = 0, nobst = 0, offset = 3\<rparr>"
    by code_simp+
  have d: "sketch_centre boot 3500 = 2000" "sketch_transitions boot 2000 = boot\<lparr>duration := - 1\<rparr>"
      "fst (loop boot 3500) = boot"
    by code_simp+
  have m: "main_exec [5600] = main_run boot [3500]" "main_exec [5600, 2448] = main_run boot [3500, 1530]"
    by (simp_all add: main_exec_def w)
  show ?thesis unfolding e w m b c d using a b c d by simp
qed

subsection \<open>The debounce\<close>

text \<open>
  C4, as the code has it. \<open>duration\<close> counts the iterations since the state was entered,
  whatever the readings were. In FWD, REV and BRK a reading strictly inside the margin
  leaves the state alone while \<open>duration\<close> is below 4 and \<open>duration\<close> goes up by one; with
  \<open>duration\<close> at 4 or more a single such reading moves FWD to STP and REV and BRK to INI,
  with \<open>duration\<close> reset (1 after the iteration). Over a run of such readings the state
  is left at the first reading that finds \<open>duration\<close> at 4: right after the state was
  entered (\<open>duration = 1\<close>) that is the fourth.
\<close>

theorem debounce_is_time_in_state:
  assumes "state (main_exec ns) = FWD \<or> state (main_exec ns) = REV \<or> state (main_exec ns) = BRK"
    and "\<forall>m \<in> set ms. - MARGIN < centre (main_exec ns) (pulse_width m) \<and>
                       centre (main_exec ns) (pulse_width m) < MARGIN"
  shows "state (main_exec (ns @ ms)) =
           (if ms = [] \<or> duration (main_exec ns) + int (length ms) \<le> 4 then state (main_exec ns)
            else if state (main_exec ns) = FWD then STP else INI) \<and>
         (\<forall>m \<in> set ms.
            state (main_exec (ns @ [m])) =
              (if duration (main_exec ns) < 4 then state (main_exec ns)
               else if state (main_exec ns) = FWD then STP else INI) \<and>
            duration (main_exec (ns @ [m])) =
              (if duration (main_exec ns) < 4 then duration (main_exec ns) + 1 else 1))"
proof -
  let ?g = "main_exec ns"
  have c: "state ?g \<noteq> CTR" using assms(1) by auto
  have d: "0 \<le> duration ?g" "duration ?g \<le> 255"
    using main_inv_duration [OF main_inv_exec, of ns] by simp_all
  have "\<forall>w \<in> set (map pulse_width ms). - MARGIN < centre ?g w \<and> centre ?g w < MARGIN"
    using assms(2) by simp
  from in_band_run [OF c d this]
  have a: "state (main_exec (ns @ ms)) =
           (if ms = [] \<or> duration ?g + int (length ms) \<le> 4 then state ?g
            else if state ?g = FWD then STP else INI)"
    using assms(1) by (auto simp: main_exec_append)
  have b: "state (main_exec (ns @ [m])) =
              (if duration ?g < 4 then state ?g else if state ?g = FWD then STP else INI) \<and>
           duration (main_exec (ns @ [m])) = (if duration ?g < 4 then duration ?g + 1 else 1)"
    if "m \<in> set ms" for m
  proof -
    from that assms(2) have i: "- MARGIN < centre ?g (pulse_width m)" "centre ?g (pulse_width m) < MARGIN"
      by simp_all
    show ?thesis
      using in_band_iter [OF c d i] assms(1) by (auto simp: main_exec_snoc)
  qed
  from a b show ?thesis by blast
qed

theorem debounce_is_time_in_state_witness:
  "state (main_exec (replicate 21 2400 @ [2560])) = FWD \<and>
   duration (main_exec (replicate 21 2400 @ [2560])) = 1 \<and>
   centre (main_exec (replicate 21 2400 @ [2560])) (pulse_width 2400) = 0 \<and>
   state (main_exec ((replicate 21 2400 @ [2560]) @ replicate 3 2400)) = FWD \<and>
   state (main_exec ((replicate 21 2400 @ [2560]) @ replicate 4 2400)) = STP \<and>
   duration (main_exec ((replicate 21 2400 @ [2560]) @ [2400])) = 2"
proof -
  let ?ns = "replicate 21 2400 @ [2560]"
  have c: "centre (main_exec ?ns) (pulse_width 2400) = 0"
    unfolding exec_forward pulse_width_values by code_simp
  have s: "state (main_exec ?ns) = FWD \<or> state (main_exec ?ns) = REV \<or> state (main_exec ?ns) = BRK"
    by (simp add: exec_forward)
  have b: "\<forall>m \<in> set (replicate k 2400). - MARGIN < centre (main_exec ?ns) (pulse_width m) \<and>
                       centre (main_exec ?ns) (pulse_width m) < MARGIN" for k
    by (simp add: c MARGIN_def)
  from debounce_is_time_in_state [OF s b [of 3]] debounce_is_time_in_state [OF s b [of 4]] c
  show ?thesis by (simp add: exec_forward)
qed

text \<open>
  The claim as the specification states it fails: after four iterations in FWD at a
  centred width of 100, outside the margin, the first reading inside the margin (0) moves
  the state to STP at once.
\<close>

theorem first_in_band_reading_stops:
  "state (main_exec (replicate 21 2400 @ replicate 4 2560)) = FWD \<and>
   centre (main_exec (replicate 21 2400 @ replicate 4 2560)) (pulse_width 2560) = 100 \<and>
   centre (main_exec (replicate 21 2400 @ replicate 4 2560)) (pulse_width 2400) = 0 \<and>
   state (main_exec ((replicate 21 2400 @ replicate 4 2560) @ [2400])) = STP"
proof -
  have "centre \<lparr>state = FWD, duration = 4, led = 1, nobst = 4, offset = 0\<rparr> 1600 = 100"
       "centre \<lparr>state = FWD, duration = 4, led = 1, nobst = 4, offset = 0\<rparr> 1500 = 0"
       "state (fst (main_iter \<lparr>state = FWD, duration = 4, led = 1, nobst = 4, offset = 0\<rparr> 1500)) = STP"
    by code_simp+
  then show ?thesis
    unfolding main_exec_snoc exec_forward pulse_width_values by simp
qed

subsection \<open>The length of a burst\<close>

text \<open>
  C5, as the code has it. From any state after calibration with \<open>nobst = 0\<close>, held at
  a centred width of 500, iteration k + 1 ends in FWD and sends 2000 while k + 1 is below
  MAXBURST, that is for 14 iterations, and 1700 from iteration MAXBURST = 15 on.
\<close>

theorem burst_lasts_maxburst_minus_one:
  assumes "state (main_exec ns) \<noteq> CTR" "nobst (main_exec ns) = 0"
    and "centre (main_exec ns) (pulse_width n) = 500"
  shows "state (main_exec (ns @ replicate (Suc k) n)) = FWD \<and>
         snd (main_iter (main_exec (ns @ replicate k n)) (pulse_width n)) =
           (if int k + 1 < MAXBURST then 2000 else 1700)"
proof -
  let ?g = "main_exec ns"
  let ?w = "pulse_width n"
  let ?h = "main_run ?g (replicate k ?w)"
  have i: "main_inv ?g" by (rule main_inv_exec)
  have m: "MARGIN \<le> centre ?g ?w" using assms(3) by (simp add: MARGIN_def)
  note h = hold_forward [OF i assms(1,2) m, of k]
  have e: "main_exec (ns @ replicate k n) = ?h" by (simp add: main_exec_append)
  have "ns @ replicate (Suc k) n = (ns @ replicate k n) @ [n]"
    by (simp add: replicate_append_same)
  then have e': "main_exec (ns @ replicate (Suc k) n) = fst (main_iter ?h ?w)"
    by (simp only: main_exec_snoc e)
  have "centre ?h ?w = centre ?g ?w" using h assms(1) by (intro centre_same) simp_all
  then have c: "centre ?h ?w = 500" using assms(3) by simp
  have f: "state (fst (main_iter ?h ?w)) = FWD"
    using h by (simp add: main_iter_state' c transitions_forward MARGIN_def)
  have w: "0 \<le> ?w" "?w \<le> 8191" using pulse_width_range [of n] by simp_all
  have b: "0 \<le> nobst ?h" "nobst ?h \<le> 30" using h by (simp_all split: if_splits)
  have "snd (main_iter ?h ?w) = (if 14 \<le> nobst ?h then c_div (500 * 2) 5 else 500) + 1500"
    using main_iter_sent [of ?h ?w] h w b f by (simp add: c)
  moreover have "c_div (500 * 2) 5 = 200" by (simp add: c_div_def)
  ultimately have "snd (main_iter ?h ?w) = (if int k + 1 < MAXBURST then 2000 else 1700)"
    using h by (simp add: MAXBURST_def)
  then show ?thesis using f by (simp only: e e')
qed

theorem burst_lasts_maxburst_minus_one_witness:
  "state (main_exec (replicate 21 2400)) \<noteq> CTR \<and> nobst (main_exec (replicate 21 2400)) = 0 \<and>
   centre (main_exec (replicate 21 2400)) (pulse_width 3200) = 500 \<and>
   state (main_exec (replicate 21 2400 @ replicate (Suc 13) 3200)) = FWD \<and>
   snd (main_iter (main_exec (replicate 21 2400 @ replicate 13 3200)) (pulse_width 3200)) = 2000 \<and>
   state (main_exec (replicate 21 2400 @ replicate (Suc 14) 3200)) = FWD \<and>
   snd (main_iter (main_exec (replicate 21 2400 @ replicate 14 3200)) (pulse_width 3200)) = 1700"
proof -
  have e: "main_exec (replicate 21 2400) = \<lparr>state = INI, duration = 1, led = 0, nobst = 0, offset = 0\<rparr>"
    by (simp only: main_exec_def map_replicate pulse_width_values after_calibration)
  have a: "state (main_exec (replicate 21 2400)) \<noteq> CTR" by (simp add: e)
  have b: "nobst (main_exec (replicate 21 2400)) = 0" by (simp add: e)
  have c: "centre (main_exec (replicate 21 2400)) (pulse_width 3200) = 500"
    unfolding e pulse_width_values by code_simp
  from burst_lasts_maxburst_minus_one [OF a b c, of 13]
       burst_lasts_maxburst_minus_one [OF a b c, of 14] a b c
  show ?thesis by (simp add: MAXBURST_def)
qed

text \<open>
  The claim as the specification states it fails: after calibration at 1500, with
  \<open>nobst = 0\<close>, sixteen pulses of 2000 are answered by fourteen pulses of 2000 and then by
  1700, so the iteration number MAXBURST = 15 is already scaled.
\<close>

theorem burst_iteration_15_is_scaled:
  "nobst (main_exec (replicate 21 2400)) = 0 \<and>
   main_sent (main_exec (replicate 21 2400)) (map pulse_width (replicate 16 3200)) =
     replicate 14 2000 @ [1700, 1700]"
proof -
  have e: "main_exec (replicate 21 2400) = \<lparr>state = INI, duration = 1, led = 0, nobst = 0, offset = 0\<rparr>"
    by (simp only: main_exec_def map_replicate pulse_width_values after_calibration)
  have "main_sent \<lparr>state = INI, duration = 1, led = 0, nobst = 0, offset = 0\<rparr> (replicate 16 2000) =
     replicate 14 2000 @ [1700, 1700]"
    by code_simp
  then show ?thesis unfolding e map_replicate pulse_width_values by simp
qed

subsection \<open>The arithmetic of the duration\<close>

text \<open>
  C6. In servoscale.c \<open>duration\<close> is a \<open>uint8_t\<close> and the decrement in CTR is not
  guarded: a first pulse of 2100 at power-up, outside the window, takes \<open>duration\<close> from 0
  to 255, where the final increment leaves it. The next pulse inside the window then ends
  the calibration at once, on one sample. In the sketch, where \<open>duration\<close> is an \<open>int\<close>,
  the same decrement takes it to -1 inside the iteration.
\<close>

theorem first_implausible_pulse_wraps_duration:
  "transitions boot (centre boot (pulse_width 3360)) = boot\<lparr>duration := 255\<rparr> \<and>
   main_exec [3360] = \<lparr>state = CTR, duration = 255, led = 1, nobst = 0, offset = 0\<rparr> \<and>
   main_exec [3360, 2448] = \<lparr>state = INI, duration = 1, led = 0, nobst = 0, offset = 3\<rparr> \<and>
   duration (sketch_transitions boot (sketch_centre boot 3100)) = - 1"
proof -
  have w: "pulse_width 3360 = 2100" "pulse_width 2448 = 1530"
    by (simp_all add: pulse_width_eq)
  have a: "transitions boot (centre boot 2100) = boot\<lparr>duration := 255\<rparr>"
    by code_simp
  have b: "main_run boot [2100] = \<lparr>state = CTR, duration = 255, led = 1, nobst = 0, offset = 0\<rparr>"
    by code_simp
  have c: "main_run boot [2100, 1530] = \<lparr>state = INI, duration = 1, led = 0, nobst = 0, offset = 3\<rparr>"
    by code_simp
  have d: "duration (sketch_transitions boot (sketch_centre boot 3100)) = - 1"
    by code_simp
  from a b c d show ?thesis by (simp add: main_exec_def w)
qed

subsection \<open>Leaving INI\<close>

text \<open>
  C7. In INI the first switch answers a centred width of exactly MARGIN with FWD and
  \<open>duration = 0\<close> and a width of exactly - MARGIN with REV and \<open>duration = 0\<close>; the
  iteration ends in that state with the single increment of \<open>duration\<close> applied. A width
  strictly inside the margin changes nothing in the switch and the iteration ends in INI.
\<close>

theorem idle_leaves_at_margin:
  assumes "state g = INI"
  shows "transitions g MARGIN = g\<lparr>state := FWD, duration := 0\<rparr> \<and>
         transitions g (- MARGIN) = g\<lparr>state := REV, duration := 0\<rparr> \<and>
         (centre g w = MARGIN \<longrightarrow>
            state (fst (main_iter g w)) = FWD \<and> duration (fst (main_iter g w)) = 1) \<and>
         (centre g w = - MARGIN \<longrightarrow>
            state (fst (main_iter g w)) = REV \<and> duration (fst (main_iter g w)) = 1) \<and>
         (- MARGIN < centre g w \<and> centre g w < MARGIN \<longrightarrow>
            transitions g (centre g w) = g \<and> state (fst (main_iter g w)) = INI)"
proof -
  have a: "transitions g MARGIN = g\<lparr>state := FWD, duration := 0\<rparr>"
    using assms by (simp add: transitions_def MARGIN_def)
  have b: "transitions g (- MARGIN) = g\<lparr>state := REV, duration := 0\<rparr>"
    using assms by (simp add: transitions_def MARGIN_def)
  have c: "transitions g len = g" if "- MARGIN < len \<and> len < MARGIN" for len
    using assms that by (simp add: transitions_def MARGIN_def)
  have t: "duration (tick (h\<lparr>duration := 0\<rparr>)) = 1" for h :: globals
    by (simp add: tick_def uint8_t_def)
  show ?thesis
    using a b c [of "centre g w"] assms
    by (simp add: main_iter_state' main_iter_duration t)
qed

theorem idle_leaves_at_margin_witness:
  "state (main_exec (replicate 21 2400)) = INI \<and>
   centre (main_exec (replicate 21 2400)) (pulse_width 2464) = MARGIN \<and>
   state (fst (main_iter (main_exec (replicate 21 2400)) (pulse_width 2464))) = FWD \<and>
   duration (fst (main_iter (main_exec (replicate 21 2400)) (pulse_width 2464))) = 1 \<and>
   centre (main_exec (replicate 21 2400)) (pulse_width 2336) = - MARGIN \<and>
   state (fst (main_iter (main_exec (replicate 21 2400)) (pulse_width 2336))) = REV \<and>
   - MARGIN < centre (main_exec (replicate 21 2400)) (pulse_width 2400) \<and>
   centre (main_exec (replicate 21 2400)) (pulse_width 2400) < MARGIN \<and>
   state (fst (main_iter (main_exec (replicate 21 2400)) (pulse_width 2400))) = INI"
proof -
  let ?g = "main_exec (replicate 21 2400)"
  have s: "state ?g = INI" by (simp add: exec_after_calibration)
  have c: "centre ?g (pulse_width 2464) = MARGIN" "centre ?g (pulse_width 2336) = - MARGIN"
      "centre ?g (pulse_width 2400) = 0"
    unfolding exec_after_calibration pulse_width_values margin_widths by code_simp+
  from idle_leaves_at_margin [OF s, of "pulse_width 2464"]
       idle_leaves_at_margin [OF s, of "pulse_width 2336"]
       idle_leaves_at_margin [OF s, of "pulse_width 2400"] s c
  show ?thesis by (simp add: MARGIN_def)
qed

subsection \<open>Scaling outside FWD\<close>

text \<open>
  C8. For every execution of either program from power-up: an iteration that ends in REV
  sends the centred width times 2/3 (servoscale.c) or times 2/4, that is 1/2 (the
  sketch), with the division of C, plus 1500, and takes 1 from \<open>nobst\<close>, clamped at 0; an
  iteration that ends in INI, STP or BRK sends the centred width plus 1500 and takes 1
  from \<open>nobst\<close>, clamped at 0; an iteration that ends in CTR sends the centred width plus
  1500 as well. The pulses of the sketch are taken up to 16000, where no \<open>int\<close> overflows.
\<close>

theorem scaling_outside_forward:
  "(state (main_exec (ns @ [n])) = REV \<longrightarrow>
      snd (main_iter (main_exec ns) (pulse_width n)) =
        c_div (centre (main_exec ns) (pulse_width n) * 2) 3 + 1500 \<and>
      nobst (main_exec (ns @ [n])) = max 0 (nobst (main_exec ns) - 1)) \<and>
   (state (main_exec (ns @ [n])) = INI \<or> state (main_exec (ns @ [n])) = STP \<or>
    state (main_exec (ns @ [n])) = BRK \<longrightarrow>
      snd (main_iter (main_exec ns) (pulse_width n)) = centre (main_exec ns) (pulse_width n) + 1500 \<and>
      nobst (main_exec (ns @ [n])) = max 0 (nobst (main_exec ns) - 1)) \<and>
   (state (main_exec (ns @ [n])) = CTR \<longrightarrow>
      snd (main_iter (main_exec ns) (pulse_width n)) = centre (main_exec ns) (pulse_width n) + 1500) \<and>
   (0 \<le> p \<and> p \<le> 16000 \<and> state (fst (loop (loop_run boot ps) p)) = REV \<longrightarrow>
      snd (loop (loop_run boot ps) p) = c_div (sketch_centre (loop_run boot ps) p * 2) 4 + 1500 \<and>
      c_div (sketch_centre (loop_run boot ps) p * 2) 4 = c_div (sketch_centre (loop_run boot ps) p) 2 \<and>
      nobst (fst (loop (loop_run boot ps) p)) = max 0 (nobst (loop_run boot ps) - 1)) \<and>
   (0 \<le> p \<and> p \<le> 16000 \<and> state (fst (loop (loop_run boot ps) p)) \<noteq> FWD \<and>
    state (fst (loop (loop_run boot ps) p)) \<noteq> REV \<longrightarrow>
      snd (loop (loop_run boot ps) p) = sketch_centre (loop_run boot ps) p + 1500 \<and>
      nobst (fst (loop (loop_run boot ps) p)) = max 0 (nobst (loop_run boot ps) - 1))"
proof -
  let ?g = "main_exec ns"
  let ?w = "pulse_width n"
  let ?h = "loop_run boot ps"
  have b: "0 \<le> nobst ?g" "nobst ?g \<le> 30" using nobst_exec [of ns] by simp_all
  have w: "0 \<le> ?w" "?w \<le> 8191" using pulse_width_range [of n] by simp_all
  note sent = main_iter_sent [OF main_inv_exec w b]
  note nob = main_iter_nobst [OF b, of ?w]
  have c: "0 \<le> nobst ?h" "nobst ?h \<le> 40" using sketch_nobst_boot [of ps] by simp_all
  note snob = loop_nobst [OF c, of p]
  have m1: "snd (main_iter ?g ?w) = c_div (centre ?g ?w * 2) 3 + 1500 \<and>
      nobst (main_exec (ns @ [n])) = max 0 (nobst ?g - 1)"
    if "state (main_exec (ns @ [n])) = REV"
    using that sent nob by (simp add: main_exec_snoc)
  have m2: "snd (main_iter ?g ?w) = centre ?g ?w + 1500 \<and>
      nobst (main_exec (ns @ [n])) = max 0 (nobst ?g - 1)"
    if "state (main_exec (ns @ [n])) = INI \<or> state (main_exec (ns @ [n])) = STP \<or>
        state (main_exec (ns @ [n])) = BRK"
    using that sent nob by (auto simp: main_exec_snoc)
  have m3: "snd (main_iter ?g ?w) = centre ?g ?w + 1500"
    if "state (main_exec (ns @ [n])) = CTR"
    using that sent by (simp add: main_exec_snoc)
  have s1: "snd (loop ?h p) = c_div (sketch_centre ?h p * 2) 4 + 1500 \<and>
      c_div (sketch_centre ?h p * 2) 4 = c_div (sketch_centre ?h p) 2 \<and>
      nobst (fst (loop ?h p)) = max 0 (nobst ?h - 1)"
    if "0 \<le> p \<and> p \<le> 16000 \<and> state (fst (loop ?h p)) = REV"
    using that loop_sent [OF sketch_inv_boot [of ps] _ _ c, of p] snob by (simp add: c_div_half)
  have s2: "snd (loop ?h p) = sketch_centre ?h p + 1500 \<and>
      nobst (fst (loop ?h p)) = max 0 (nobst ?h - 1)"
    if "0 \<le> p \<and> p \<le> 16000 \<and> state (fst (loop ?h p)) \<noteq> FWD \<and> state (fst (loop ?h p)) \<noteq> REV"
    using that loop_sent [OF sketch_inv_boot [of ps] _ _ c, of p] snob by simp
  from m1 m2 m3 s1 s2 show ?thesis by blast
qed

theorem scaling_outside_forward_witness:
  "state (main_exec (replicate 21 2400 @ [1600])) = REV \<and>
   snd (main_iter (main_exec (replicate 21 2400)) (pulse_width 1600)) = 1167 \<and>
   nobst (main_exec (replicate 21 2400 @ [1600])) = 0 \<and>
   state (main_exec (replicate 21 2400 @ [2400])) = INI \<and>
   snd (main_iter (main_exec (replicate 21 2400)) (pulse_width 2400)) = 1500 \<and>
   state (main_exec ([] @ [2400])) = CTR \<and>
   snd (main_iter (main_exec []) (pulse_width 2400)) = 1500 \<and>
   state (fst (loop (loop_run boot (replicate 21 1500)) 1000)) = REV \<and>
   snd (loop (loop_run boot (replicate 21 1500)) 1000) = 1250 \<and>
   state (fst (loop (loop_run boot (replicate 21 1500)) 1500)) = INI \<and>
   snd (loop (loop_run boot (replicate 21 1500)) 1500) = 1500"
proof -
  let ?g = "main_exec (replicate 21 2400)"
  let ?h = "loop_run boot (replicate 21 1500)"
  have e: "main_exec [] = boot" by (simp add: main_exec_def)
  have i: "main_iter \<lparr>state = INI, duration = 1, led = 0, nobst = 0, offset = 0\<rparr> 1000 =
             (\<lparr>state = REV, duration = 1, led = 1, nobst = 0, offset = 0\<rparr>, 1167)"
          "main_iter \<lparr>state = INI, duration = 1, led = 0, nobst = 0, offset = 0\<rparr> 1500 =
             (\<lparr>state = INI, duration = 2, led = 0, nobst = 0, offset = 0\<rparr>, 1500)"
          "main_iter boot 1500 = (\<lparr>state = CTR, duration = 1, led = 1, nobst = 0, offset = 0\<rparr>, 1500)"
          "loop \<lparr>state = INI, duration = 1, led = 1, nobst = 0, offset = 0\<rparr> 1000 =
             (\<lparr>state = REV, duration = 1, led = 1, nobst = 0, offset = 0\<rparr>, 1250)"
          "loop \<lparr>state = INI, duration = 1, led = 1, nobst = 0, offset = 0\<rparr> 1500 =
             (\<lparr>state = INI, duration = 2, led = 1, nobst = 0, offset = 0\<rparr>, 1500)"
    by code_simp+
  have s: "state (main_exec (replicate 21 2400 @ [1600])) = REV"
          "state (main_exec (replicate 21 2400 @ [2400])) = INI"
          "state (main_exec ([] @ [2400])) = CTR"
          "state (fst (loop ?h 1000)) = REV"
          "state (fst (loop ?h 1500)) = INI"
    unfolding main_exec_snoc e exec_after_calibration sketch_after_calibration pulse_width_values i
    by simp_all
  have v: "c_div (centre ?g (pulse_width 1600) * 2) 3 + 1500 = 1167"
          "centre ?g (pulse_width 2400) + 1500 = 1500"
          "centre (main_exec []) (pulse_width 2400) + 1500 = 1500"
          "c_div (sketch_centre ?h 1000 * 2) 4 + 1500 = 1250"
          "sketch_centre ?h 1500 + 1500 = 1500"
          "max 0 (nobst ?g - 1) = 0"
    unfolding e exec_after_calibration sketch_after_calibration pulse_width_values
    by code_simp+
  from scaling_outside_forward [of "replicate 21 2400" 1600 1000 "replicate 21 1500"]
       scaling_outside_forward [of "replicate 21 2400" 2400 1500 "replicate 21 1500"]
       scaling_outside_forward [of "[]" 2400 1500 "replicate 21 1500"] s
  show ?thesis unfolding v by simp
qed

subsection \<open>The bias of the emission loop\<close>

text \<open>
  C9. \<open>send_pulse\<close> adds 1 to the loop count it computes from the requested width, for
  every width. The count is therefore never 0, the loop ends after count - 1 runs of its
  body, and the pin goes high before and low after. For a width of 0 the count is 1: the
  pin goes high and low with no run of the body in between. With a count of 0, which the
  bias excludes, the decrement would wrap and the body would run 65535 times.
\<close>

theorem send_pulse_bias:
  "loop_count width = uint16_t (uint16_t width * 8 div 4 + 1) \<and>
   0 < loop_count width \<and> loop_count width \<le> 65535 \<and>
   send_pulse width = High # replicate (nat (loop_count width - 1)) Nop @ [Low] \<and>
   send_pulse 0 = [High, Low] \<and>
   spin (loop_count 0 - 1) = replicate 65535 Nop"
proof -
  have a: "loop_count width = uint16_t (uint16_t width * 8 div 4 + 1)"
    unfolding loop_count_eq by (simp add: uint16_t_def)
  have b: "send_pulse width = High # replicate (nat (loop_count width - 1)) Nop @ [Low]"
    using loop_count_pos [of width] by (simp add: send_pulse_def spin_eq)
  have c: "loop_count 0 = 1" by (simp add: loop_count_eq)
  have d: "send_pulse 0 = [High, Low]"
    using spin_eq [of 1] by (simp add: send_pulse_def c)
  have e: "spin (loop_count 0 - 1) = replicate 65535 Nop"
    by (simp only: c spin_0 diff_self)
  from a b d e loop_count_pos [of width] show ?thesis
    by simp
qed

subsection \<open>The sign of the offset\<close>

text \<open>
  C10. In every execution of either program \<open>offset\<close> is never negative: not between two
  iterations and not inside the first switch, the only place that assigns it. In CTR, on
  a reading inside the window, \<open>cumulate\<close> adds the absolute value of the reading once
  \<open>duration\<close> has reached 10, and \<open>finish\<close> divides a non-negative sum by 10. The centred
  reading of any later pulse is therefore never below the pulse minus 1500.
\<close>

theorem offset_never_negative:
  "0 \<le> offset (main_exec ns) \<and>
   (state (main_exec ns) = CTR \<and> - 500 \<le> len \<and> len \<le> 500 \<longrightarrow>
      cumulate (main_exec ns) len =
        (if 10 \<le> duration (main_exec ns)
         then (main_exec ns)\<lparr>offset := offset (main_exec ns) + \<bar>len\<bar>\<rparr> else main_exec ns) \<and>
      0 \<le> offset (cumulate (main_exec ns) len) \<and>
      offset (finish (cumulate (main_exec ns) len)) =
        (if 20 \<le> duration (main_exec ns) then offset (cumulate (main_exec ns) len) div 10
         else offset (cumulate (main_exec ns) len)) \<and>
      0 \<le> offset (finish (cumulate (main_exec ns) len))) \<and>
   0 \<le> offset (transitions (main_exec ns) (centre (main_exec ns) (pulse_width n))) \<and>
   pulse_width n - 1500 \<le> centre (main_exec ns) (pulse_width n) \<and>
   0 \<le> offset (loop_run boot ps) \<and>
   (state (loop_run boot ps) = CTR \<and> - 1500 \<le> len \<and> len \<le> 1500 \<longrightarrow>
      cumulate (loop_run boot ps) len =
        (if 10 \<le> duration (loop_run boot ps)
         then (loop_run boot ps)\<lparr>offset := offset (loop_run boot ps) + \<bar>len\<bar>\<rparr>
         else loop_run boot ps) \<and>
      0 \<le> offset (cumulate (loop_run boot ps) len) \<and>
      offset (finish (cumulate (loop_run boot ps) len)) =
        (if 20 \<le> duration (loop_run boot ps) then offset (cumulate (loop_run boot ps) len) div 10
         else offset (cumulate (loop_run boot ps) len)) \<and>
      0 \<le> offset (finish (cumulate (loop_run boot ps) len))) \<and>
   0 \<le> offset (sketch_transitions (loop_run boot ps) (sketch_centre (loop_run boot ps) p)) \<and>
   (0 \<le> p \<and> p \<le> 16000 \<longrightarrow> p - 1500 \<le> sketch_centre (loop_run boot ps) p)"
proof -
  let ?g = "main_exec ns"
  let ?w = "pulse_width n"
  let ?h = "loop_run boot ps"
  have i: "main_inv ?g" by (rule main_inv_exec)
  have j: "sketch_inv ?h" by (rule sketch_inv_boot)
  have o: "0 \<le> offset ?g" "offset ?g \<le> 15000" using main_inv_offset [OF i] by simp_all
  have q: "0 \<le> offset ?h" "offset ?h \<le> 15000" using sketch_inv_offset [OF j] by simp_all
  have w: "0 \<le> ?w" "?w \<le> 8191" using pulse_width_range [of n] by simp_all
  have a: "cumulate ?g len = (if 10 \<le> duration ?g then ?g\<lparr>offset := offset ?g + \<bar>len\<bar>\<rparr> else ?g) \<and>
      0 \<le> offset (cumulate ?g len) \<and>
      offset (finish (cumulate ?g len)) =
        (if 20 \<le> duration ?g then offset (cumulate ?g len) div 10 else offset (cumulate ?g len)) \<and>
      0 \<le> offset (finish (cumulate ?g len))"
    if "state ?g = CTR \<and> - 500 \<le> len \<and> len \<le> 500"
    using that cumulate_finish_nonneg [OF o, of len] by simp
  have b: "cumulate ?h len = (if 10 \<le> duration ?h then ?h\<lparr>offset := offset ?h + \<bar>len\<bar>\<rparr> else ?h) \<and>
      0 \<le> offset (cumulate ?h len) \<and>
      offset (finish (cumulate ?h len)) =
        (if 20 \<le> duration ?h then offset (cumulate ?h len) div 10 else offset (cumulate ?h len)) \<and>
      0 \<le> offset (finish (cumulate ?h len))"
    if "state ?h = CTR \<and> - 1500 \<le> len \<and> len \<le> 1500"
    using that cumulate_finish_nonneg [OF q, of len] by simp
  have "main_mid (transitions ?g (centre ?g ?w))" using i by (rule transitions_mid)
  then have c: "0 \<le> offset (transitions ?g (centre ?g ?w))"
    by (auto simp: main_mid_def split: if_splits)
  have "sketch_mid (sketch_transitions ?h (sketch_centre ?h p))" using j by (rule sketch_transitions_mid)
  then have d: "0 \<le> offset (sketch_transitions ?h (sketch_centre ?h p))"
    by (auto simp: sketch_mid_def split: if_splits)
  have e: "?w - 1500 \<le> centre ?g ?w" using o by (simp add: centre_eq [OF i w])
  have f: "p - 1500 \<le> sketch_centre ?h p" if "0 \<le> p \<and> p \<le> 16000"
    using that q by (simp add: sketch_centre_eq [OF j])
  from o(1) a c e q(1) b d f show ?thesis by blast
qed

theorem offset_never_negative_witness:
  "state (main_exec (replicate 15 2448)) = CTR \<and>
   offset (main_exec (replicate 15 2448)) = 150 \<and>
   offset (cumulate (main_exec (replicate 15 2448)) (- 30)) = 180 \<and>
   state (loop_run boot (replicate 15 1530)) = CTR \<and>
   offset (cumulate (loop_run boot (replicate 15 1530)) (- 30)) = 180 \<and>
   1000 - 1500 \<le> sketch_centre (loop_run boot (replicate 15 1530)) 1000"
proof -
  let ?g = "main_exec (replicate 15 2448)"
  let ?h = "loop_run boot (replicate 15 1530)"
  have "main_run boot (replicate 15 1530) = \<lparr>state = CTR, duration = 15, led = 1, nobst = 0, offset = 150\<rparr>"
    by code_simp
  then have g: "?g = \<lparr>state = CTR, duration = 15, led = 1, nobst = 0, offset = 150\<rparr>"
    by (simp only: main_exec_def map_replicate pulse_width_values)
  have h: "?h = \<lparr>state = CTR, duration = 15, led = 1, nobst = 0, offset = 150\<rparr>"
    by code_simp
  have a: "state ?g = CTR \<and> - 500 \<le> (- 30 :: int) \<and> (- 30 :: int) \<le> 500" by (simp add: g)
  have b: "state ?h = CTR \<and> - 1500 \<le> (- 30 :: int) \<and> (- 30 :: int) \<le> 1500" by (simp add: h)
  have c: "(0::int) \<le> 1000 \<and> (1000::int) \<le> 16000" by simp
  note t = offset_never_negative [of "replicate 15 2448" "- 30" 0 "replicate 15 1530" 1000]
  from t a have "cumulate ?g (- 30) =
        (if 10 \<le> duration ?g then ?g\<lparr>offset := offset ?g + \<bar>- 30\<bar>\<rparr> else ?g)"
    by blast
  then have x: "offset (cumulate ?g (- 30)) = 180" unfolding g by simp
  from t b have "cumulate ?h (- 30) =
        (if 10 \<le> duration ?h then ?h\<lparr>offset := offset ?h + \<bar>- 30\<bar>\<rparr> else ?h)"
    by blast
  then have y: "offset (cumulate ?h (- 30)) = 180" unfolding h by simp
  from t c have z: "1000 - 1500 \<le> sketch_centre ?h 1000" by blast
  have "state ?g = CTR" "offset ?g = 150" "state ?h = CTR" by (simp_all add: g h)
  with x y z show ?thesis by blast
qed

end
